theory Spec2Isabelle
  imports Main "HOL-Library.AList" "HOL-Library.Product_Lexorder" "HOL-Library.Multiset"
    "HOL-Library.Char_ord" "HOL-Library.List_Lexorder"
begin

section \<open>Protocol buffers of the flow engine\<close>

text \<open>
  The records follow the protocol buffers that \<^verbatim>\<open>lib/flow_context.py\<close> reads and
  writes (\<^verbatim>\<open>jobs_pb2\<close>).  An unset string field reads as the empty string and an
  unset number as 0, as in the protobuf runtime.  \<^verbatim>\<open>SerializeToString\<close> and
  \<^verbatim>\<open>ParseFromString\<close> are modelled as the identity: a serialized protobuf is the
  protobuf value itself.
\<close>

datatype msg_type = MESSAGE | STATUS

datatype auth_state = UNAUTHENTICATED | AUTHENTICATED

datatype status_code = OK | GENERIC_ERROR

datatype flow_state = RUNNING | TERMINATED | ERROR

text \<open>\<^verbatim>\<open>GrrStatus\<close>.  The CPU times are only ever copied by the code modelled here.\<close>

record grr_status =
  st_status :: status_code
  st_error_message :: string
  st_user_cpu_time :: int
  st_system_cpu_time :: int
  st_network_bytes_sent :: nat
  st_child_session_id :: string

definition GrrStatus0 :: grr_status where
  "GrrStatus0 = \<lparr>st_status = OK, st_error_message = [], st_user_cpu_time = 0,
     st_system_cpu_time = 0, st_network_bytes_sent = 0, st_child_session_id = []\<rparr>"

text \<open>
  A payload protobuf handed to \<^verbatim>\<open>SendReply\<close> or \<^verbatim>\<open>CallState\<close>:
  \<open>isinstance(p, jobs_pb2.GrrStatus)\<close> is the test for the first constructor.
\<close>

datatype payload = Status grr_status | DataBlob string

fun is_GrrStatus :: "payload \<Rightarrow> bool" where
  "is_GrrStatus (Status _) = True"
| "is_GrrStatus (DataBlob _) = False"

text \<open>\<^verbatim>\<open>GrrMessage\<close>; \<open>m_args\<close> is the serialized payload.\<close>

record grr_message =
  m_session_id :: string
  m_name :: string
  m_request_id :: nat
  m_response_id :: nat
  m_type :: msg_type
  m_auth_state :: auth_state
  m_priority :: nat
  m_args :: payload

definition GrrMessage0 :: grr_message where
  "GrrMessage0 = \<lparr>m_session_id = [], m_name = [], m_request_id = 0, m_response_id = 0,
     m_type = MESSAGE, m_auth_state = UNAUTHENTICATED, m_priority = 0, m_args = DataBlob []\<rparr>"

text \<open>
  \<^verbatim>\<open>RequestState\<close>.  \<open>response_count\<close> is a \<open>uint32\<close> field: the protobuf
  runtime refuses to assign it a number above \<open>uint32_max\<close> and raises
  \<^verbatim>\<open>ValueError\<close>.
\<close>

definition uint32_max :: nat where
  "uint32_max = 4294967295"

record request_state =
  r_id :: nat
  r_session_id :: string
  r_client_id :: string
  r_next_state :: string
  r_flow_name :: string
  r_response_count :: nat
  r_data :: "(string \<times> string) list"
  r_request :: grr_message
  r_ts_id :: nat
  r_transmission_count :: nat

definition RequestState0 :: request_state where
  "RequestState0 = \<lparr>r_id = 0, r_session_id = [], r_client_id = [], r_next_state = [],
     r_flow_name = [], r_response_count = 0, r_data = [], r_request = GrrMessage0,
     r_ts_id = 0, r_transmission_count = 0\<rparr>"

text \<open>\<^verbatim>\<open>FlowPB\<close>; \<open>pb_request_state = None\<close> is \<open>not HasField("request_state")\<close>.\<close>

record flow_pb =
  pb_session_id :: string
  pb_state :: flow_state
  pb_priority :: nat
  pb_event_id :: string
  pb_request_state :: "request_state option"
  pb_children :: "string list"
  pb_user_cpu_time :: int
  pb_system_cpu_time :: int
  pb_network_bytes_sent :: nat
  pb_backtrace :: string

text \<open>
  Python exceptions.  \<open>PyException tb\<close> is any other exception; \<open>tb\<close> is the text
  that \<^verbatim>\<open>traceback.format_exc()\<close> gives for it.
\<close>

datatype exn = FlowContextError | MoreDataException | DataStoreError | PyException string

datatype 'a res = Return 'a | Raise exn

text \<open>Optional Python strings (\<open>None\<close> or a \<open>str\<close>), \<open>a or b\<close>, and their
  assignment to a protobuf string field (\<open>None\<close> leaves the field unset).\<close>

fun truthy :: "string option \<Rightarrow> bool" where
  "truthy None = False"
| "truthy (Some s) = (s \<noteq> [])"

definition py_or :: "string option \<Rightarrow> string option \<Rightarrow> string option" where
  "py_or a b = (if truthy a then a else b)"

fun pb_str :: "string option \<Rightarrow> string" where
  "pb_str None = []"
| "pb_str (Some s) = s"

section \<open>FlowManager.FetchRequestsAndResponses\<close>

text \<open>
  Python strings are compared character by character, by code point, a proper prefix
  being smaller: the order of \<^typ>\<open>char list\<close>.  \<^verbatim>\<open>"%X" % n\<close> writes \<open>n\<close> with
  the digits \<^verbatim>\<open>0123456789ABCDEF\<close>, and \<^verbatim>\<open>"%08X" % n\<close> pads it with zeros on
  the left to eight characters; a number from \<open>2^32\<close> on takes more than eight.
\<close>

definition hex_digit :: "nat \<Rightarrow> char" where
  "hex_digit d = ''0123456789ABCDEF'' ! d"

fun hex :: "nat \<Rightarrow> string" where
  "hex n = (if n < 16 then [hex_digit n] else hex (n div 16) @ [hex_digit (n mod 16)])"

declare hex.simps [simp del]

definition hex8 :: "nat \<Rightarrow> string" where
  "hex8 n = replicate (8 - length (hex n)) (CHR ''0'') @ hex n"

text \<open>\<^verbatim>\<open>FLOW_REQUEST_TEMPLATE % request_id\<close> and
  \<^verbatim>\<open>FLOW_RESPONSE_TEMPLATE % (request_id, response_id)\<close>\<close>

definition FLOW_REQUEST_TEMPLATE :: "nat \<Rightarrow> string" where
  "FLOW_REQUEST_TEMPLATE request_id = ''flow:request:'' @ hex8 request_id"

definition FLOW_RESPONSE_TEMPLATE :: "nat \<Rightarrow> nat \<Rightarrow> string" where
  "FLOW_RESPONSE_TEMPLATE request_id response_id =
     ''flow:response:'' @ hex8 request_id @ '':'' @ hex8 response_id"

text \<open>
  The columns of a session's state subject are written with these two templates only.
  A row of a scan is kept as the numbers its column name is made of and the stored
  protobuf: a request scan is the list of (request number, stored RequestState) that
  \<open>ResolveRegex(subject, FLOW_REQUEST_REGEX, limit=request_limit)\<close> returned, a
  response scan the list of ((request number, response number), stored GrrMessage)
  returned for \<open>FLOW_RESPONSE_REGEX\<close>.  \<open>predicate\<close> is the column name of a row,
  by which \<open>sorted\<close> orders the scan (rows of the same column keep the order of
  the scan), and \<open>predicate.split(":")[2]\<close> is the \<^verbatim>\<open>%08X\<close> text of its
  request number.
\<close>

type_synonym request_scan = "(nat \<times> request_state) list"
type_synonym response_scan = "((nat \<times> nat) \<times> grr_message) list"

definition request_predicate :: "nat \<times> request_state \<Rightarrow> string" where
  "request_predicate row = FLOW_REQUEST_TEMPLATE (fst row)"

definition response_predicate :: "(nat \<times> nat) \<times> grr_message \<Rightarrow> string" where
  "response_predicate row = FLOW_RESPONSE_TEMPLATE (fst (fst row)) (snd (fst row))"

text \<open>
  \<open>state_map\<close>: a dictionary from request id to the metadata dictionary, whose
  entry \<open>"REQUEST_STATE"\<close> is set when the dictionary is created and whose entry
  \<open>"RESPONSES"\<close> defaults to the empty list.
\<close>

type_synonym state_map = "(nat \<times> request_state \<times> grr_message list) list"

definition request_limit :: nat where
  "request_limit = 10000"

definition response_limit :: nat where
  "response_limit = 100000"

text \<open>\<open>state_map.setdefault(request.id, {})["REQUEST_STATE"] = request\<close>\<close>

definition set_request_state :: "request_state \<Rightarrow> state_map \<Rightarrow> state_map" where
  "set_request_state request sm =
     AList.update (r_id request)
       (request, case map_of sm (r_id request) of None \<Rightarrow> [] | Some (_, rs) \<Rightarrow> rs) sm"

text \<open>
  \<open>if response.request_id in state_map:
       state_map[response.request_id].setdefault("RESPONSES", []).append(response)\<close>
\<close>

definition add_response :: "grr_message \<Rightarrow> state_map \<Rightarrow> state_map" where
  "add_response response sm =
     (case map_of sm (m_request_id response) of
        None \<Rightarrow> sm
      | Some (request, rs) \<Rightarrow> AList.update (m_request_id response) (request, rs @ [response]) sm)"

text \<open>The first loop; the accumulator is (state_map, max_request_id, request_count).\<close>

fun read_requests ::
  "request_scan \<Rightarrow> state_map \<times> string \<times> nat \<Rightarrow> state_map \<times> string \<times> nat" where
  "read_requests [] acc = acc"
| "read_requests ((k, request) # rest) (sm, max_request_id, request_count) =
     read_requests rest (set_request_state request sm, hex8 k, request_count + 1)"

text \<open>The second loop, with its \<open>break\<close>; the accumulator is (state_map, response_count).\<close>

fun read_responses :: "response_scan \<Rightarrow> string \<Rightarrow> state_map \<times> nat \<Rightarrow> state_map \<times> nat" where
  "read_responses [] max_request_id acc = acc"
| "read_responses (((k, i), response) # rest) max_request_id (sm, response_count) =
     (if hex8 k > max_request_id then (sm, response_count + 1)
      else read_responses rest max_request_id (add_response response sm, response_count + 1))"

text \<open>
  What a generator hands to the loop that consumes it: the values it yields, in order,
  and possibly an exception raised when the consumer asks for the next value.  A
  consumer that leaves its loop early never sees the items behind that point.
\<close>

datatype 'a gen_item = Yield 'a | GenRaise exn

type_synonym fetched = "(request_state \<times> grr_message list) gen_item list"

definition FetchRequestsAndResponses :: "request_scan \<Rightarrow> response_scan \<Rightarrow> fetched" where
  "FetchRequestsAndResponses requests responses =
     (let (sm, max_request_id, request_count) =
            read_requests (sort_key request_predicate requests)
              ([(0, RequestState0, [])], ''00000000'', 0);
          (sm', response_count) =
            read_responses (sort_key response_predicate responses) max_request_id (sm, 0)
      in map (\<lambda>(request_id, metadata). Yield metadata) (sort_key fst sm') @
         (if request_count \<ge> request_limit \<or> response_count \<ge> response_limit
          then [GenRaise MoreDataException] else []))"

section \<open>The context and its collaborators\<close>

text \<open>
  One record holds everything the code reads and writes: the fields of the context
  object, the data store, the task scheduler and a journal of the calls made to the flow
  object (\<open>self.parent_flow\<close>).  The class attribute \<open>process_requests_in_order\<close>
  and the methods that \<open>FlowContext\<close> overrides are selected by the class.
\<close>

datatype context_class = HuntFlowContext | FlowContext

fun process_requests_in_order :: "context_class \<Rightarrow> bool" where
  "process_requests_in_order HuntFlowContext = False"
| "process_requests_in_order FlowContext = True"

text \<open>A column of a state subject is named by one of the two templates; it is kept as
  the numbers its name is made of, \<open>FLOW_REQUEST_TEMPLATE k\<close> or
  \<open>FLOW_RESPONSE_TEMPLATE k i\<close>, which determine the name and are determined by it.\<close>

datatype column = RequestColumn nat | ResponseColumn nat nat

datatype stored = StoredRequest request_state | StoredMessage grr_message

record task =
  t_queue :: string
  t_id :: nat
  t_sync :: bool
  t_value :: grr_message

datatype event =
    FlowLog string
  | FlowLogClientError "string option" string
  | FlowSave flow_pb
  | FlowNotify string "string option" string

record sys =
  queue_name :: string
  session_id :: string
  client_id :: "string option"
  new_request_states :: "request_state list"
  next_states :: "string list"
  current_state :: string
  next_processed_request :: nat
  next_outbound_id :: nat
  outstanding_requests :: int
  flow_pb :: flow_pb
  store :: "string \<Rightarrow> (column \<times> stored) list"
  multiset_raises :: "exn option"
  tasks :: "task list"
  next_task_id :: nat
  schedule_raises :: "exn option"
  deleted :: "(string option \<times> nat list) list"
  notified :: "(string \<times> string) list"
  journal :: "event list"

subsection \<open>The data store\<close>

text \<open>
  Modelled from the spec: the data store (\<^verbatim>\<open>grr.lib.data_store\<close>, not among the
  sources) with its contract \<open>MultiSet\<close>, \<open>ResolveRegex\<close>, \<open>DeleteSubject\<close>.
  A subject holds rows (column, serialized value).  \<open>multiset_raises\<close> names the
  exception that \<open>MultiSet\<close> raises, if it fails; \<open>DataStoreError\<close> stands for
  \<open>data_store.Error\<close>.
\<close>

datatype pattern = FLOW_REQUEST_REGEX | FLOW_RESPONSE_REGEX

fun matches :: "pattern \<Rightarrow> column \<Rightarrow> bool" where
  "matches FLOW_REQUEST_REGEX (RequestColumn k) = True"
| "matches FLOW_REQUEST_REGEX (ResponseColumn k i) = False"
| "matches FLOW_RESPONSE_REGEX (RequestColumn k) = False"
| "matches FLOW_RESPONSE_REGEX (ResponseColumn k i) = True"

definition ResolveRegex :: "sys \<Rightarrow> string \<Rightarrow> pattern \<Rightarrow> nat \<Rightarrow> (column \<times> stored) list" where
  "ResolveRegex s subject pat limit = take limit (filter (\<lambda>(c, v). matches pat c) (store s subject))"

definition DeleteSubject :: "string \<Rightarrow> sys \<Rightarrow> sys" where
  "DeleteSubject subject s = s\<lparr>store := (store s)(subject := [])\<rparr>"

definition MultiSet ::
  "string \<Rightarrow> (column \<times> stored list) list \<Rightarrow> column list \<Rightarrow> sys \<Rightarrow> unit res \<times> sys" where
  "MultiSet subject to_write to_delete s =
     (case multiset_raises s of
        Some e \<Rightarrow> (Raise e, s)
      | None \<Rightarrow>
          (Return (),
           s\<lparr>store := (store s)(subject :=
                filter (\<lambda>(c, v). c \<notin> set to_delete) (store s subject) @
                concat (map (\<lambda>(c, vs). map (Pair c) vs) to_write))\<rparr>))"

text \<open>The rows of a scan, parsed; a row that does not hold a protobuf of its column's
  kind is never written by this code and is left out.\<close>

fun request_rows :: "(column \<times> stored) list \<Rightarrow> request_scan" where
  "request_rows [] = []"
| "request_rows ((RequestColumn k, StoredRequest r) # rows) = (k, r) # request_rows rows"
| "request_rows (row # rows) = request_rows rows"

fun response_rows :: "(column \<times> stored) list \<Rightarrow> response_scan" where
  "response_rows [] = []"
| "response_rows ((ResponseColumn k i, StoredMessage m) # rows) = ((k, i), m) # response_rows rows"
| "response_rows (row # rows) = response_rows rows"

subsection \<open>The task scheduler\<close>

text \<open>
  Modelled from the spec: the task scheduler (\<^verbatim>\<open>grr.lib.scheduler\<close>, not among the
  sources) with its contract \<open>Schedule\<close> (on return each task carries its id),
  \<open>Delete\<close> and \<open>NotifyQueue\<close>.  Ids are handed out from a counter;
  \<open>deleted\<close> and \<open>notified\<close> list the calls of \<open>Delete\<close> and \<open>NotifyQueue\<close>
  in order; \<open>schedule_raises\<close> names the exception that \<open>Schedule\<close> raises, if it
  fails.
\<close>

definition Schedule :: "(string \<times> grr_message) list \<Rightarrow> bool \<Rightarrow> sys \<Rightarrow> nat list res \<times> sys" where
  "Schedule new_tasks sync s =
     (case schedule_raises s of
        Some e \<Rightarrow> (Raise e, s)
      | None \<Rightarrow>
          (let ids = [next_task_id s ..< next_task_id s + length new_tasks]
           in (Return ids,
               s\<lparr>tasks := tasks s @
                     map (\<lambda>((q, v), i). \<lparr>t_queue = q, t_id = i, t_sync = sync, t_value = v\<rparr>)
                       (zip new_tasks ids),
                  next_task_id := next_task_id s + length new_tasks\<rparr>)))"

definition Delete :: "string option \<Rightarrow> nat list \<Rightarrow> sys \<Rightarrow> sys" where
  "Delete queue ids s =
     s\<lparr>tasks := filter (\<lambda>t. \<not> (Some (t_queue t) = queue \<and> t_id t \<in> set ids)) (tasks s),
       deleted := deleted s @ [(queue, ids)]\<rparr>"

definition NotifyQueue :: "string \<Rightarrow> string \<Rightarrow> sys \<Rightarrow> sys" where
  "NotifyQueue queue sid s = s\<lparr>notified := notified s @ [(queue, sid)]\<rparr>"

subsection \<open>The flow object\<close>

text \<open>
  The flow object is a parameter: its state methods (looked up by name with
  \<open>getattr\<close>; \<open>None\<close> is a missing attribute), its \<open>End\<close> method, and the flow
  factory's \<open>StartFlow\<close> used by \<open>CallFlow\<close> (client id, flow name, the parent's
  request state, keyword arguments; it returns the child's session id).  All of them
  may read and change the whole of \<open>sys\<close> and may raise.

  Modelled from the spec: \<open>Log\<close>, \<open>LogClientError\<close>, \<open>Save\<close> and \<open>Notify\<close>
  of the flow object (class \<^verbatim>\<open>GRRFlow\<close>, not among the sources) append an entry to
  the journal; \<open>OutstandingRequests\<close> returns the context's count.
\<close>

record flow_obj =
  state_methods ::
    "string \<Rightarrow> (request_state \<Rightarrow> grr_message list \<Rightarrow> sys \<Rightarrow> unit res \<times> sys) option"
  End_method :: "sys \<Rightarrow> unit res \<times> sys"
  StartFlow ::
    "string option \<Rightarrow> string \<Rightarrow> request_state \<Rightarrow> (string \<times> string) list \<Rightarrow> sys \<Rightarrow> string res \<times> sys"

definition record_event :: "event \<Rightarrow> sys \<Rightarrow> sys" where
  "record_event e s = s\<lparr>journal := journal s @ [e]\<rparr>"

definition Save :: "sys \<Rightarrow> sys" where
  "Save s = record_event (FlowSave (flow_pb s)) s"

text \<open>The text of \<open>traceback.format_exc()\<close> for an exception being handled.\<close>

fun format_exc :: "exn \<Rightarrow> string" where
  "format_exc (PyException tb) = tb"
| "format_exc FlowContextError = ''FlowContextError''"
| "format_exc MoreDataException = ''MoreDataException''"
| "format_exc DataStoreError = ''data_store.Error''"

section \<open>FlowManager\<close>

record flow_manager =
  fm_session_id :: string
  to_write :: "(column \<times> stored list) list"
  to_delete :: "column list"
  client_messages :: "nat list"
  fm_client_id :: "string option"

definition FlowManager :: "string \<Rightarrow> flow_manager" where
  "FlowManager sid =
     \<lparr>fm_session_id = sid, to_write = [], to_delete = [], client_messages = [],
      fm_client_id = None\<rparr>"

text \<open>\<open>FLOW_STATE_TEMPLATE % session_id\<close>\<close>

definition subject :: "string \<Rightarrow> string" where
  "subject sid = ''task:'' @ sid @ '':state''"

text \<open>The generator of \<open>FetchRequestsAndResponses\<close> on the two scans of the store.\<close>

definition Fetch :: "flow_manager \<Rightarrow> sys \<Rightarrow> fetched" where
  "Fetch fm s =
     FetchRequestsAndResponses
       (request_rows (ResolveRegex s (subject (fm_session_id fm)) FLOW_REQUEST_REGEX request_limit))
       (response_rows (ResolveRegex s (subject (fm_session_id fm)) FLOW_RESPONSE_REGEX response_limit))"

text \<open>\<open>if request_state:\<close> is false for the \<open>None\<close> that the manager of well-known
  flows yields in place of a request.\<close>

definition DeleteFlowRequestStates ::
  "request_state option \<Rightarrow> grr_message list \<Rightarrow> flow_manager \<Rightarrow> flow_manager" where
  "DeleteFlowRequestStates request_state responses fm =
     (let fm1 = (case request_state of
                   None \<Rightarrow> fm
                 | Some r \<Rightarrow> fm\<lparr>to_delete := to_delete fm @ [RequestColumn (r_id r)],
                               client_messages := client_messages fm @ [r_ts_id r],
                               fm_client_id := Some (r_client_id r)\<rparr>)
      in fm1\<lparr>to_delete := to_delete fm1 @
                map (\<lambda>response. ResponseColumn (m_request_id response) (m_response_id response))
                  responses\<rparr>)"

text \<open>\<open>self.to_write.setdefault(key, []).append(value)\<close>\<close>

definition setdefault_append :: "column \<Rightarrow> stored \<Rightarrow> (column \<times> stored list) list \<Rightarrow> (column \<times> stored list) list" where
  "setdefault_append key v d =
     AList.update key ((case map_of d key of None \<Rightarrow> [] | Some vs \<Rightarrow> vs) @ [v]) d"

definition QueueResponse :: "grr_message \<Rightarrow> flow_manager \<Rightarrow> flow_manager" where
  "QueueResponse message_proto fm =
     fm\<lparr>to_write := setdefault_append
           (ResponseColumn (m_request_id message_proto) (m_response_id message_proto))
           (StoredMessage message_proto) (to_write fm)\<rparr>"

definition QueueRequest :: "request_state \<Rightarrow> flow_manager \<Rightarrow> flow_manager" where
  "QueueRequest request_state fm =
     fm\<lparr>to_write := setdefault_append (RequestColumn (r_id request_state))
           (StoredRequest request_state) (to_write fm)\<rparr>"

definition Flush :: "flow_manager \<Rightarrow> sys \<Rightarrow> unit res \<times> flow_manager \<times> sys" where
  "Flush fm s =
     (case MultiSet (subject (fm_session_id fm)) (to_write fm) (to_delete fm) s of
        (Raise e, s1) \<Rightarrow>
          (if e = DataStoreError
           then (Return (), fm\<lparr>to_write := [], to_delete := []\<rparr>,
                 Delete (fm_client_id fm) (client_messages fm) s1)
           else (Raise e, fm, s1))
      | (Return u, s1) \<Rightarrow>
          (Return (), fm\<lparr>to_write := [], to_delete := []\<rparr>,
           Delete (fm_client_id fm) (client_messages fm) s1))"

text \<open>
  \<open>with FlowManager(session_id, ...) as flow_manager: body\<close>.  \<open>__exit__\<close> runs
  \<open>Flush\<close> on every path; an exception of the body is raised again afterwards,
  unless \<open>Flush\<close> raised one itself.
\<close>

definition with_FlowManager ::
  "string \<Rightarrow> (flow_manager \<Rightarrow> sys \<Rightarrow> 'a res \<times> flow_manager \<times> sys) \<Rightarrow> sys \<Rightarrow> 'a res \<times> sys" where
  "with_FlowManager sid body s =
     (case body (FlowManager sid) s of
        (r, fm, s1) \<Rightarrow>
          (case Flush fm s1 of
             (Raise e, fm', s2) \<Rightarrow> (Raise e, s2)
           | (Return u, fm', s2) \<Rightarrow> (r, s2)))"

text \<open>
  A \<open>for\<close> loop over a generator.  The body says whether the loop goes on to the
  next item (\<open>continue\<close>, or the end of the body), leaves (\<open>break\<close>), or is left by
  an exception.
\<close>

datatype 'a step = Continue 'a | Break 'a | Throw exn 'a

fun for_loop :: "('i \<Rightarrow> 'a \<Rightarrow> 'a step) \<Rightarrow> 'i gen_item list \<Rightarrow> 'a \<Rightarrow> unit res \<times> 'a" where
  "for_loop body [] a = (Return (), a)"
| "for_loop body (GenRaise e # items) a = (Raise e, a)"
| "for_loop body (Yield x # items) a =
     (case body x a of
        Continue a' \<Rightarrow> for_loop body items a'
      | Break a' \<Rightarrow> (Return (), a')
      | Throw e a' \<Rightarrow> (Raise e, a'))"

definition DestroyFlowStates :: "flow_manager \<Rightarrow> sys \<Rightarrow> unit res \<times> flow_manager \<times> sys" where
  "DestroyFlowStates fm s =
     (case for_loop
             (\<lambda>(request_state, responses) fm.
                Continue (fm\<lparr>client_messages := client_messages fm @ [r_ts_id request_state],
                             fm_client_id := Some (r_client_id request_state)\<rparr>))
             (Fetch fm s) fm of
        (Raise e, fm') \<Rightarrow> (Raise e, fm', s)
      | (Return u, fm') \<Rightarrow> (Return (), fm', DeleteSubject (subject (fm_session_id fm')) s))"

section \<open>The context\<close>

definition IsRunning :: "sys \<Rightarrow> bool" where
  "IsRunning s = (pb_state (flow_pb s) = RUNNING)"

definition GetNextOutboundId :: "sys \<Rightarrow> nat \<times> sys" where
  "GetNextOutboundId s = (next_outbound_id s, s\<lparr>next_outbound_id := next_outbound_id s + 1\<rparr>)"

subsection \<open>SendReply\<close>

text \<open>\<open>request_state.session_id.split(":")[0]\<close>\<close>

definition worker_queue_of :: "string \<Rightarrow> string" where
  "worker_queue_of sid = takeWhile (\<lambda>c. c \<noteq> CHR '':'') sid"

text \<open>The resource usage that \<open>SendReply\<close> writes into a \<open>GrrStatus\<close> payload.\<close>

fun stamp_resources :: "sys \<Rightarrow> payload \<Rightarrow> payload" where
  "stamp_resources s (Status st) =
     Status (st\<lparr>st_user_cpu_time := pb_user_cpu_time (flow_pb s),
                st_system_cpu_time := pb_system_cpu_time (flow_pb s),
                st_network_bytes_sent := pb_network_bytes_sent (flow_pb s),
                st_child_session_id := session_id s\<rparr>)"
| "stamp_resources s (DataBlob b) = DataBlob b"

text \<open>
  \<open>SendReply\<close>.  The increment of \<open>request_state.response_count\<close> stands before
  the \<open>try\<close> block: when the count is at the top of its \<open>uint32\<close> range the
  assignment raises, and neither the \<open>with\<close> block nor the \<open>finally\<close> clause
  runs.
\<close>

definition SendReply :: "payload \<Rightarrow> sys \<Rightarrow> unit res \<times> sys" where
  "SendReply response_proto s =
     (case pb_request_state (flow_pb s) of
        None \<Rightarrow> (Return (), s)
      | Some request_state0 \<Rightarrow>
          if r_response_count request_state0 + 1 > uint32_max
          then (Raise (PyException ''ValueError''), s)
          else
          (let request_state =
                 request_state0\<lparr>r_response_count := r_response_count request_state0 + 1\<rparr>;
               s0 = s\<lparr>flow_pb := (flow_pb s)\<lparr>pb_request_state := Some request_state\<rparr>\<rparr>;
               worker_queue = worker_queue_of (r_session_id request_state);
               (r, s1) =
                 with_FlowManager (r_session_id request_state)
                   (\<lambda>flow_manager s.
                      let msg = GrrMessage0\<lparr>m_session_id := r_session_id request_state,
                                  m_request_id := r_id request_state,
                                  m_response_id := r_response_count request_state,
                                  m_auth_state := AUTHENTICATED,
                                  m_args := stamp_resources s response_proto\<rparr>
                      in if is_GrrStatus response_proto
                         then (let msg' = msg\<lparr>m_type := STATUS\<rparr>
                               in case Schedule [(worker_queue, msg')] False s of
                                    (Raise e, s') \<Rightarrow> (Raise e, flow_manager, s')
                                  | (Return ids, s') \<Rightarrow>
                                      (Return (), QueueResponse msg' flow_manager, s'))
                         else (Return (), QueueResponse msg flow_manager, s))
                   s0;
               s2 = NotifyQueue worker_queue (r_session_id request_state) s1
           in (if r = Raise MoreDataException then Return () else r, s2)))"

subsection \<open>Error and Terminate\<close>

text \<open>\<open>HuntFlowContext.Error\<close> logs with the flow object; \<open>FlowContext.Error\<close>
  kills the flow.  (\<open>flags.FLAGS.debug\<close> is taken to be off.)\<close>

definition Error :: "context_class \<Rightarrow> string option \<Rightarrow> string \<Rightarrow> sys \<Rightarrow> unit res \<times> sys" where
  "Error cls client backtrace s =
     (case cls of
        HuntFlowContext \<Rightarrow> (Return (), record_event (FlowLogClientError client backtrace) s)
      | FlowContext \<Rightarrow>
          (if pb_state (flow_pb s) = RUNNING
           then (let s1 = s\<lparr>flow_pb := (flow_pb s)\<lparr>pb_state := ERROR\<rparr>\<rparr>;
                     reply0 = GrrStatus0\<lparr>st_status := GENERIC_ERROR\<rparr>;
                     reply = (if backtrace \<noteq> [] then reply0\<lparr>st_error_message := backtrace\<rparr>
                              else reply0)
                 in case SendReply (Status reply) s1 of
                      (Raise e, s2) \<Rightarrow> (Raise e, s2)
                    | (Return u, s2) \<Rightarrow>
                        (let s3 = (if backtrace \<noteq> []
                                   then s2\<lparr>flow_pb := (flow_pb s2)\<lparr>pb_backtrace := backtrace\<rparr>\<rparr>
                                   else s2);
                             s4 = Save s3
                         in (Return (),
                             record_event
                               (FlowNotify ''FlowStatus'' (client_id s4)
                                  (''Flow ('' @ session_id s4 @ '') terminated due to error''))
                               s4)))
           else (Return (), s)))"

definition Terminate :: "sys \<Rightarrow> unit res \<times> sys" where
  "Terminate s =
     (case with_FlowManager (session_id s) DestroyFlowStates s of
        (r, s1) \<Rightarrow>
          (if r \<noteq> Return () \<and> r \<noteq> Raise MoreDataException then (r, s1)
           else if pb_state (flow_pb s1) = RUNNING
           then (case SendReply (Status GrrStatus0) s1 of
                   (Raise e, s2) \<Rightarrow> (Raise e, s2)
                 | (Return u, s2) \<Rightarrow>
                     (Return (), Save (s2\<lparr>flow_pb := (flow_pb s2)\<lparr>pb_state := TERMINATED\<rparr>\<rparr>)))
           else (Return (), s1)))"

subsection \<open>CallClient and CallFlow\<close>

text \<open>
  \<open>CallClient\<close>; \<open>args_pb\<close> is the protobuf to send (when the caller passes none,
  the code first builds one from the keyword arguments).  \<open>FlowContext.CallClient\<close>
  replaces a missing \<open>client_id\<close> by the context's before it calls the method of
  \<open>HuntFlowContext\<close>.
\<close>

definition CallClient ::
  "context_class \<Rightarrow> string \<Rightarrow> payload \<Rightarrow> string option \<Rightarrow> (string \<times> string) list option \<Rightarrow>
   string option \<Rightarrow> sys \<Rightarrow> unit res \<times> sys" where
  "CallClient cls action_name args_pb next_state request_data client s =
     (let client' = (case cls of FlowContext \<Rightarrow> py_or client (client_id s)
                     | HuntFlowContext \<Rightarrow> client)
      in case next_state of
           None \<Rightarrow> (Raise FlowContextError, s)
         | Some next \<Rightarrow>
             (if process_requests_in_order cls \<and> next \<notin> set (next_states s)
              then (Raise FlowContextError, s)
              else (let (outbound_id, s1) = GetNextOutboundId s;
                        state0 = RequestState0\<lparr>r_id := outbound_id,
                                   r_session_id := session_id s1,
                                   r_next_state := next,
                                   r_client_id := pb_str client'\<rparr>;
                        state1 = (case request_data of None \<Rightarrow> state0
                                  | Some d \<Rightarrow> state0\<lparr>r_data := d\<rparr>);
                        msg = GrrMessage0\<lparr>m_session_id := session_id s1,
                                m_name := action_name,
                                m_request_id := outbound_id,
                                m_args := args_pb,
                                m_priority := pb_priority (flow_pb s1)\<rparr>;
                        state = state1\<lparr>r_request := msg\<rparr>
                    in (Return (),
                        s1\<lparr>new_request_states := new_request_states s1 @ [state],
                           outstanding_requests := outstanding_requests s1 + 1\<rparr>))))"

text \<open>
  \<open>CallFlow\<close>.  \<open>StartFlow\<close> runs between the allocation of the outbound id and
  the append to the pending buffer; an exception it raises leaves \<open>CallFlow\<close> there.
\<close>

definition CallFlow ::
  "context_class \<Rightarrow> flow_obj \<Rightarrow> string \<Rightarrow> string option \<Rightarrow> (string \<times> string) list option \<Rightarrow>
   string option \<Rightarrow> (string \<times> string) list \<Rightarrow> sys \<Rightarrow> unit res \<times> sys" where
  "CallFlow cls fl flow_name next_state request_data client kwargs s =
     (let client0 = (case cls of FlowContext \<Rightarrow> py_or client (client_id s)
                     | HuntFlowContext \<Rightarrow> client)
      in if process_requests_in_order cls \<and> truthy next_state \<and>
            pb_str next_state \<notin> set (next_states s)
         then (Raise FlowContextError, s)
         else (let client' = py_or client0 (client_id s);
                   (outbound_id, s1) = GetNextOutboundId s;
                   state0 = RequestState0\<lparr>r_id := outbound_id,
                              r_session_id := session_id s1,
                              r_client_id := pb_str client',
                              r_next_state := pb_str next_state,
                              r_flow_name := flow_name,
                              r_response_count := 0\<rparr>;
                   state = (case request_data of
                              None \<Rightarrow> state0
                            | Some d \<Rightarrow> if d \<noteq> [] then state0\<lparr>r_data := d\<rparr> else state0)
               in case StartFlow fl client' flow_name state kwargs s1 of
                    (Raise e, s2) \<Rightarrow> (Raise e, s2)
                  | (Return child, s2) \<Rightarrow>
                      (Return (),
                       s2\<lparr>new_request_states := new_request_states s2 @ [state],
                          flow_pb := (flow_pb s2)\<lparr>pb_children := pb_children (flow_pb s2) @ [child]\<rparr>,
                          outstanding_requests := outstanding_requests s2 + 1\<rparr>)))"

subsection \<open>FlushMessages\<close>

text \<open>
  Modelled from the spec: \<open>utils.GroupBy(items, key)\<close> (\<^verbatim>\<open>grr.lib.utils\<close> is not
  among the sources) gives, for each key, the items with that key in their order.  The
  keys are taken in the order of their first item.
\<close>

definition first_keys :: "'k list \<Rightarrow> 'k list" where
  "first_keys ks = rev (remdups (rev ks))"

definition GroupBy :: "'a list \<Rightarrow> ('a \<Rightarrow> 'k) \<Rightarrow> ('k \<times> 'a list) list" where
  "GroupBy items key =
     map (\<lambda>k. (k, filter (\<lambda>item. key item = k) items)) (first_keys (map key items))"

text \<open>
  \<open>request.ts_id = task.id\<close> changes a request object of \<open>to_flush\<close> in place.  The
  objects of the buffer are distinct, so an object is named by its position in
  \<open>to_flush\<close>.
\<close>

fun set_ts_ids :: "(nat \<times> nat) list \<Rightarrow> request_state list \<Rightarrow> request_state list" where
  "set_ts_ids [] requests = requests"
| "set_ts_ids ((i, task_id) # rest) requests =
     set_ts_ids rest (requests[i := (requests ! i)\<lparr>r_ts_id := task_id\<rparr>])"

text \<open>The first loop of \<open>FlushMessages\<close>, over the groups by \<open>client_id\<close>.\<close>

fun schedule_groups ::
  "(string \<times> (nat \<times> request_state) list) list \<Rightarrow> request_state list \<times> sys \<Rightarrow>
   unit res \<times> request_state list \<times> sys" where
  "schedule_groups [] (to_flush, s) = (Return (), to_flush, s)"
| "schedule_groups ((destination, requests) # groups) (to_flush, s) =
     (let to_schedule = filter (\<lambda>(i, request). m_name (r_request request) \<noteq> []) requests;
          new_tasks = map (\<lambda>(i, request). (destination, r_request request)) to_schedule
      in case Schedule new_tasks True s of
           (Raise e, s1) \<Rightarrow> (Raise e, to_flush, s1)
         | (Return ids, s1) \<Rightarrow>
             schedule_groups groups (set_ts_ids (zip (map fst to_schedule) ids) to_flush, s1))"

text \<open>The second loop, over the groups by \<open>session_id\<close>.\<close>

fun store_groups :: "(string \<times> request_state list) list \<Rightarrow> sys \<Rightarrow> unit res \<times> sys" where
  "store_groups [] s = (Return (), s)"
| "store_groups ((sid, requests) # groups) s =
     (case with_FlowManager sid
             (\<lambda>flow_manager s. (Return (), fold QueueRequest requests flow_manager, s)) s of
        (Raise e, s1) \<Rightarrow>
          (if e = MoreDataException then store_groups groups s1 else (Raise e, s1))
      | (Return u, s1) \<Rightarrow> store_groups groups s1)"

definition FlushMessages :: "sys \<Rightarrow> unit res \<times> sys" where
  "FlushMessages s =
     (let to_flush = new_request_states s;
          s0 = s\<lparr>new_request_states := []\<rparr>
      in case schedule_groups
                (GroupBy (zip [0..<length to_flush] to_flush) (\<lambda>(i, request). r_client_id request))
                (to_flush, s0) of
           (Raise e, to_flush', s1) \<Rightarrow> (Raise e, s1)
         | (Return u, to_flush', s1) \<Rightarrow> store_groups (GroupBy to_flush' r_session_id) s1)"

subsection \<open>ProcessCompletedRequests\<close>

text \<open>
  \<open>_ProcessSingleRequest\<close>.  Every exception of the state method, and of its
  lookup, is caught and handed to \<open>Error\<close>; an exception of \<open>Error\<close> itself leaves
  the method.
\<close>

definition ProcessSingleRequest ::
  "context_class \<Rightarrow> flow_obj \<Rightarrow> request_state \<Rightarrow> grr_message list \<Rightarrow> sys \<Rightarrow> unit res \<times> sys" where
  "ProcessSingleRequest cls fl request responses s =
     (let s0 = s\<lparr>current_state := r_next_state request\<rparr>;
          client = (if r_client_id request \<noteq> [] then Some (r_client_id request) else client_id s0)
      in case (case state_methods fl (r_next_state request) of
                 None \<Rightarrow> (Raise (PyException ''AttributeError''), s0)
               | Some method \<Rightarrow> method request responses s0) of
           (Raise e, s1) \<Rightarrow> Error cls client (format_exc e) s1
         | (Return u, s1) \<Rightarrow> (Return (), s1))"

text \<open>
  \<open>_Process\<close>: \<open>FlowContext\<close> runs the request at once.  \<open>HuntFlowContext\<close> hands
  it to the thread pool and waits for all its tasks before \<open>ProcessCompletedRequests\<close>
  returns; the model runs each task when it is added.
\<close>

definition Process ::
  "context_class \<Rightarrow> flow_obj \<Rightarrow> request_state \<Rightarrow> grr_message list \<Rightarrow> sys \<Rightarrow> unit res \<times> sys" where
  "Process cls fl request responses s = ProcessSingleRequest cls fl request responses s"

text \<open>
  The body of the main loop.  Its state is the list of the (request, responses) handed
  to \<open>_Process\<close> so far, the flow manager of the \<open>with\<close> block, and the context.
\<close>

type_synonym dispatched = "(request_state \<times> grr_message list) list"

definition process_request ::
  "context_class \<Rightarrow> flow_obj \<Rightarrow> request_state \<times> grr_message list \<Rightarrow>
   dispatched \<times> flow_manager \<times> sys \<Rightarrow> (dispatched \<times> flow_manager \<times> sys) step" where
  "process_request cls fl item a =
     (case (item, a) of ((request, responses), (done, flow_manager, s)) \<Rightarrow>
        if r_id request = 0 then Continue a
        else if responses = [] then Continue a
        else if process_requests_in_order cls \<and> r_id request > next_processed_request s
        then Break a
        else if process_requests_in_order cls \<and> r_id request < next_processed_request s
        then Continue (done, DeleteFlowRequestStates (Some request) responses flow_manager, s)
        else if process_requests_in_order cls \<and> r_id request \<noteq> next_processed_request s
        then Break a
        else if m_type (last responses) \<noteq> STATUS then Continue a
        else (let flow_manager1 = DeleteFlowRequestStates (Some request) responses flow_manager
              in if length responses \<noteq> m_response_id (last responses)
                 then (if r_transmission_count request < 5
                       then Break (done, flow_manager1,
                              s\<lparr>new_request_states := new_request_states s @
                                   [request\<lparr>r_transmission_count :=
                                      r_transmission_count request + 1\<rparr>]\<rparr>)
                       else Break (done, flow_manager1, s))
                 else if IsRunning s
                 then (case Process cls fl request responses s of
                         (Raise e, s1) \<Rightarrow> Throw e (done @ [(request, responses)], flow_manager1, s1)
                       | (Return u, s1) \<Rightarrow>
                           Continue (done @ [(request, responses)], flow_manager1,
                             s1\<lparr>next_processed_request := next_processed_request s1 + 1,
                                outstanding_requests := outstanding_requests s1 - 1\<rparr>))
                 else Break (done, flow_manager1, s)))"

text \<open>The \<open>End\<close> state that lets the flow clean up, in its \<open>try\<close> block.\<close>

definition run_End :: "context_class \<Rightarrow> flow_obj \<Rightarrow> sys \<Rightarrow> unit res \<times> sys" where
  "run_End cls fl s =
     (if outstanding_requests s = 0 \<and> IsRunning s
      then (case (if current_state s \<noteq> ''End'' then End_method fl s else (Return (), s)) of
              (Raise e, s1) \<Rightarrow> Error cls (client_id s1) (format_exc e) s1
            | (Return u, s1) \<Rightarrow> (Return (), s1))
      else (Return (), s))"

text \<open>
  \<open>ProcessCompletedRequests\<close>; the result carries the list of the requests handed to
  \<open>_Process\<close>.
\<close>

definition ProcessCompletedRequests ::
  "context_class \<Rightarrow> flow_obj \<Rightarrow> sys \<Rightarrow> (unit res \<times> dispatched) \<times> sys" where
  "ProcessCompletedRequests cls fl s =
     (let ((r, done), s') =
        (if \<not> IsRunning s
         then (case with_FlowManager (session_id s)
                      (\<lambda>flow_manager s.
                         case for_loop
                                (\<lambda>(request, responses) fm.
                                   Continue (DeleteFlowRequestStates (Some request) responses fm))
                                (Fetch flow_manager s) flow_manager of
                           (r, fm) \<Rightarrow> (r, fm, s))
                      (record_event (FlowLog ''Flow dead - deleting all outstanding requests.'') s) of
                 (r, s1) \<Rightarrow> ((r, []), s1))
         else (case (case for_loop (process_request cls fl) (Fetch (FlowManager (session_id s)) s)
                            ([], FlowManager (session_id s), s) of
                       (Raise e, done, fm, s1) \<Rightarrow> (Raise e, done, fm, s1)
                     | (Return u, done, fm, s1) \<Rightarrow>
                         (case run_End cls fl s1 of
                            (Raise e, s2) \<Rightarrow> (Raise e, done, fm, s2)
                          | (Return u, s2) \<Rightarrow>
                              (if outstanding_requests s2 = 0
                               then (case Terminate s2 of (r, s3) \<Rightarrow> (r, done, fm, s3))
                               else (Return (), done, fm, s2)))) of
                 (r, done, fm, s1) \<Rightarrow>
                   (case Flush fm s1 of
                      (Raise e, fm', s2) \<Rightarrow> ((Raise e, done), s2)
                    | (Return u, fm', s2) \<Rightarrow> ((r, done), s2))))
      in if r = Raise MoreDataException
         then ((Return (), done), NotifyQueue (queue_name s') (session_id s') s')
         else ((r, done), s'))"

section \<open>Notions used in the statements\<close>

text \<open>The request number of the last row of a request scan in sorted order, as text,
  and \<^verbatim>\<open>"00000000"\<close> when the scan is empty: the value of \<open>max_request_id\<close>
  after the first loop.\<close>

definition last_request_key :: "request_scan \<Rightarrow> string" where
  "last_request_key requests =
     (if requests = [] then ''00000000''
      else hex8 (fst (last (sort_key request_predicate requests))))"

text \<open>The rows that the second loop joins from a sorted response scan: those in front
  of the first row whose request number, as text, is beyond the limit given.  The number
  of rows the loop takes counts that first row as well.\<close>

definition responses_joined :: "string \<Rightarrow> response_scan \<Rightarrow> response_scan" where
  "responses_joined max_request_id responses =
     takeWhile (\<lambda>row. hex8 (fst (fst row)) \<le> max_request_id) responses"

definition responses_read :: "string \<Rightarrow> response_scan \<Rightarrow> nat" where
  "responses_read max_request_id responses =
     (let n = length (responses_joined max_request_id responses)
      in if n < length responses then n + 1 else n)"

text \<open>
  The pairs that \<open>FetchRequestsAndResponses\<close> is to yield.  The ids are 0 and the ids
  of the stored requests of the scan, in ascending order.  The request of an id is the
  stored request with that id (the last one in the order of the sorted scan, should two
  rows hold the same id), and the empty \<open>RequestState(id=0)\<close> for the id 0 when no
  row holds it.  The responses of an id are the joined rows whose message has that
  \<open>request_id\<close>, in the order of the sorted response scan.
\<close>

definition request_ids :: "request_scan \<Rightarrow> nat list" where
  "request_ids requests = sort (remdups (0 # map (r_id \<circ> snd) requests))"

definition stored_request :: "request_scan \<Rightarrow> nat \<Rightarrow> request_state" where
  "stored_request requests request_id =
     (let found = filter (\<lambda>request. r_id request = request_id)
                    (map snd (sort_key request_predicate requests))
      in if found = [] then RequestState0 else last found)"

definition joined_responses :: "request_scan \<Rightarrow> response_scan \<Rightarrow> nat \<Rightarrow> grr_message list" where
  "joined_responses requests responses request_id =
     filter (\<lambda>response. m_request_id response = request_id)
       (map snd (responses_joined (last_request_key requests)
                   (sort_key response_predicate responses)))"

text \<open>Invariant of \<open>state_map\<close>: the keys are distinct, and each entry holds a request
  with the key as its id.\<close>

definition sm_ok :: "state_map \<Rightarrow> bool" where
  "sm_ok sm = (distinct (map fst sm) \<and> list_all (\<lambda>(k, request, rs). r_id request = k) sm)"

text \<open>A response scan of \<open>n\<close> rows, the responses 1 to \<open>n\<close> to request 5.\<close>

definition orphan_responses :: "nat \<Rightarrow> response_scan" where
  "orphan_responses n = zip (zip (replicate n 5) [1..<Suc n]) (replicate n GrrMessage0)"

text \<open>A request whose number has eight hexadecimal digits, with a response to it and
  a response to a request whose number has nine.\<close>

definition wide_request :: request_state where
  "wide_request = RequestState0\<lparr>r_id := 268435456\<rparr>"

definition wide_responses :: response_scan where
  "wide_responses =
     [((268435456, 1), GrrMessage0\<lparr>m_request_id := 268435456, m_response_id := 1\<rparr>),
      ((4294967296, 1), GrrMessage0\<lparr>m_request_id := 4294967296, m_response_id := 1\<rparr>)]"

text \<open>The values a generator yields.\<close>

fun yields :: "'a gen_item list \<Rightarrow> 'a list" where
  "yields [] = []"
| "yields (Yield x # items) = x # yields items"
| "yields (GenRaise e # items) = []"

subsection \<open>Concrete contexts\<close>

text \<open>A running flow without a parent on an empty store, and the same flow as the child
  of request 3 of session \<open>W:AA\<close>.\<close>

definition flow_pb0 :: flow_pb where
  "flow_pb0 = \<lparr>pb_session_id = ''W:1F'', pb_state = RUNNING, pb_priority = 0,
     pb_event_id = ''user:console'', pb_request_state = None, pb_children = [],
     pb_user_cpu_time = 7, pb_system_cpu_time = 2, pb_network_bytes_sent = 512,
     pb_backtrace = []\<rparr>"

definition sys0 :: sys where
  "sys0 = \<lparr>queue_name = ''W'', session_id = ''W:1F'', client_id = Some ''C.1'',
     new_request_states = [], next_states = [''Done''], current_state = ''Start'',
     next_processed_request = 1, next_outbound_id = 1, outstanding_requests = 0,
     flow_pb = flow_pb0, store = (\<lambda>subject. []), multiset_raises = None, tasks = [],
     next_task_id = 100, schedule_raises = None, deleted = [], notified = [], journal = []\<rparr>"

definition parent_request :: request_state where
  "parent_request = RequestState0\<lparr>r_id := 3, r_session_id := ''W:AA'', r_client_id := ''C.1'',
     r_next_state := ''GotChild'', r_flow_name := ''Child'', r_response_count := 1\<rparr>"

definition child_sys :: sys where
  "child_sys = sys0\<lparr>flow_pb := flow_pb0\<lparr>pb_request_state := Some parent_request\<rparr>\<rparr>"

text \<open>The same child when the parent request has counted as many responses as its
  \<open>uint32\<close> field holds.\<close>

definition full_parent_request :: request_state where
  "full_parent_request = parent_request\<lparr>r_response_count := 4294967295\<rparr>"

definition full_child_sys :: sys where
  "full_child_sys = sys0\<lparr>flow_pb := flow_pb0\<lparr>pb_request_state := Some full_parent_request\<rparr>\<rparr>"

text \<open>A flow object whose state \<open>Done\<close> raises, whose \<open>End\<close> does nothing, and whose
  factory starts a child \<open>W:2B\<close> without further effect.\<close>

definition failing_flow :: flow_obj where
  "failing_flow =
     \<lparr>state_methods = (\<lambda>name. if name = ''Done''
                          then Some (\<lambda>request responses s. (Raise (PyException ''boom''), s))
                          else None),
      End_method = (\<lambda>s. (Return (), s)),
      StartFlow = (\<lambda>client flow_name state kwargs s. (Return ''W:2B'', s))\<rparr>"

text \<open>A running flow whose state subject holds two outstanding requests, sent to two
  different clients, with their tasks on the two client queues.\<close>

definition request_A :: request_state where
  "request_A = RequestState0\<lparr>r_id := 1, r_session_id := ''W:1F'', r_client_id := ''C.1'',
     r_next_state := ''Done'', r_ts_id := 7,
     r_request := GrrMessage0\<lparr>m_session_id := ''W:1F'', m_name := ''Echo'', m_request_id := 1\<rparr>\<rparr>"

definition request_B :: request_state where
  "request_B = RequestState0\<lparr>r_id := 2, r_session_id := ''W:1F'', r_client_id := ''C.2'',
     r_next_state := ''Done'', r_ts_id := 8,
     r_request := GrrMessage0\<lparr>m_session_id := ''W:1F'', m_name := ''Echo'', m_request_id := 2\<rparr>\<rparr>"

definition two_client_sys :: sys where
  "two_client_sys = sys0\<lparr>
     next_outbound_id := 3, outstanding_requests := 0,
     store := (\<lambda>subject. if subject = ''task:W:1F:state''
                 then [(RequestColumn 1, StoredRequest request_A),
                       (RequestColumn 2, StoredRequest request_B)]
                 else []),
     tasks := [\<lparr>t_queue = ''C.1'', t_id = 7, t_sync = True, t_value = r_request request_A\<rparr>,
               \<lparr>t_queue = ''C.2'', t_id = 8, t_sync = True, t_value = r_request request_B\<rparr>]\<rparr>"

text \<open>The \<open>STATUS\<close> message that \<open>SendReply\<close> builds from a \<open>GrrStatus\<close> payload
  for the parent request \<open>rs\<close>.\<close>

definition status_reply :: "request_state \<Rightarrow> grr_status \<Rightarrow> sys \<Rightarrow> grr_message" where
  "status_reply rs st s =
     \<lparr>m_session_id = r_session_id rs, m_name = [], m_request_id = r_id rs,
      m_response_id = r_response_count rs + 1, m_type = STATUS,
      m_auth_state = AUTHENTICATED, m_priority = 0,
      m_args = Status (st\<lparr>st_user_cpu_time := pb_user_cpu_time (flow_pb s),
                         st_system_cpu_time := pb_system_cpu_time (flow_pb s),
                         st_network_bytes_sent := pb_network_bytes_sent (flow_pb s),
                         st_child_session_id := session_id s\<rparr>)\<rparr>"

text \<open>The state methods of a flow object leave the cursor \<open>next_processed_request\<close>
  of the context alone (they act on the context through its call methods).\<close>

definition methods_keep_cursor :: "flow_obj \<Rightarrow> bool" where
  "methods_keep_cursor fl =
     (\<forall>name method request responses s.
        state_methods fl name = Some method \<longrightarrow>
        next_processed_request (snd (method request responses s)) = next_processed_request s)"

text \<open>Responses to request 1: a message, a closing \<open>STATUS\<close> numbered 2 (complete),
  and a closing \<open>STATUS\<close> numbered 3 (response 2 is missing).\<close>

definition status_2 :: grr_message where
  "status_2 = GrrMessage0\<lparr>m_session_id := ''W:1F'', m_request_id := 1, m_response_id := 2,
     m_type := STATUS, m_args := Status GrrStatus0\<rparr>"

definition response_1 :: grr_message where
  "response_1 = GrrMessage0\<lparr>m_session_id := ''W:1F'', m_request_id := 1, m_response_id := 1\<rparr>"

text \<open>A running flow whose request 1 is complete, one whose request 1 has a gap, and
  one whose cursor is beyond its two stored requests, which have no responses.\<close>

definition complete_sys :: sys where
  "complete_sys = sys0\<lparr>
     next_outbound_id := 2, outstanding_requests := 1,
     store := (\<lambda>subject. if subject = ''task:W:1F:state''
                 then [(RequestColumn 1, StoredRequest request_A),
                       (ResponseColumn 1 1, StoredMessage response_1),
                       (ResponseColumn 1 2, StoredMessage status_2)]
                 else []),
     tasks := [\<lparr>t_queue = ''C.1'', t_id = 7, t_sync = True, t_value = r_request request_A\<rparr>]\<rparr>"

definition stale_sys :: sys where
  "stale_sys = two_client_sys\<lparr>next_processed_request := 3, outstanding_requests := 1\<rparr>"

text \<open>A flow object whose state \<open>Done\<close> and whose \<open>End\<close> return without effect.\<close>

definition done_flow :: flow_obj where
  "done_flow =
     \<lparr>state_methods = (\<lambda>name. if name = ''Done''
                          then Some (\<lambda>request responses s. (Return (), s))
                          else None),
      End_method = (\<lambda>s. (Return (), s)),
      StartFlow = (\<lambda>client flow_name state kwargs s. (Return ''W:2B'', s))\<rparr>"

text \<open>The context after the retransmission branch of the main loop: the request goes
  back to the pending buffer with its transmission count raised, unless it has been
  sent five times.\<close>

definition retransmitted :: "request_state \<Rightarrow> sys \<Rightarrow> sys" where
  "retransmitted request s =
     (if r_transmission_count request < 5
      then s\<lparr>new_request_states := new_request_states s @
               [request\<lparr>r_transmission_count := r_transmission_count request + 1\<rparr>]\<rparr>
      else s)"

definition status_3 :: grr_message where
  "status_3 = GrrMessage0\<lparr>m_session_id := ''W:1F'', m_request_id := 1, m_response_id := 3,
     m_type := STATUS, m_args := Status GrrStatus0\<rparr>"

definition gap_sys :: sys where
  "gap_sys = sys0\<lparr>
     next_outbound_id := 2, outstanding_requests := 1,
     store := (\<lambda>subject. if subject = ''task:W:1F:state''
                 then [(RequestColumn 1, StoredRequest request_A),
                       (ResponseColumn 1 1, StoredMessage response_1),
                       (ResponseColumn 1 3, StoredMessage status_3)]
                 else [])\<rparr>"

subsection \<open>Notions for FlushMessages\<close>

text \<open>A request that carries an outbound client message (\<open>request.request.name\<close> is
  set), the entries (position in the buffer, destination, message) that the first loop of
  \<open>FlushMessages\<close> schedules for a list of groups, and the task made of an entry and
  the id the scheduler returned for it.\<close>

definition named :: "request_state \<Rightarrow> bool" where
  "named request = (m_name (r_request request) \<noteq> [])"

definition to_schedule_of ::
  "(string \<times> (nat \<times> request_state) list) list \<Rightarrow> (nat \<times> string \<times> grr_message) list" where
  "to_schedule_of groups =
     concat (map (\<lambda>(destination, requests).
                    map (\<lambda>(i, request). (i, destination, r_request request))
                      (filter (\<lambda>(i, request). named request) requests)) groups)"

definition client_task :: "(nat \<times> string \<times> grr_message) \<times> nat \<Rightarrow> task" where
  "client_task x = (case x of ((i, destination, msg), task_id) \<Rightarrow>
     \<lparr>t_queue = destination, t_id = task_id, t_sync = True, t_value = msg\<rparr>)"

text \<open>The row that \<open>QueueRequest\<close> writes for a request, and the rows of a
  \<open>to_write\<close> dictionary.\<close>

definition request_row :: "request_state \<Rightarrow> column \<times> stored" where
  "request_row request = (RequestColumn (r_id request), StoredRequest request)"

definition rows_of :: "(column \<times> stored list) list \<Rightarrow> (column \<times> stored) list" where
  "rows_of d = concat (map (\<lambda>(c, vs). map (Pair c) vs) d)"

text \<open>The client task of a request whose \<open>ts_id\<close> mirrors the task id.\<close>

definition request_task :: "request_state \<Rightarrow> task" where
  "request_task request =
     \<lparr>t_queue = r_client_id request, t_id = r_ts_id request, t_sync = True,
      t_value = r_request request\<rparr>"

text \<open>A context with three pending requests: two client calls, for the clients
  \<open>C.1\<close> and \<open>C.2\<close>, and the request of a child flow, which has no outbound
  message.\<close>

definition child_request :: request_state where
  "child_request = RequestState0\<lparr>r_id := 3, r_session_id := ''W:1F'', r_client_id := ''C.1'',
     r_next_state := ''Done'', r_flow_name := ''Child''\<rparr>"

definition pending_sys :: sys where
  "pending_sys = sys0\<lparr>
     new_request_states := [request_A\<lparr>r_ts_id := 0\<rparr>, child_request, request_B\<lparr>r_ts_id := 0\<rparr>],
     next_outbound_id := 4, outstanding_requests := 3\<rparr>"

section \<open>The generator of requests and responses\<close>

lemma list_all_update:
  "list_all P al \<Longrightarrow> P (k, v) \<Longrightarrow> list_all P (AList.update k v al)"
  by (induction al) simp_all

lemma sm_ok_update:
  "sm_ok sm \<Longrightarrow> r_id request = k \<Longrightarrow> sm_ok (AList.update k (request, rs) sm)"
  unfolding sm_ok_def
  by (simp add: distinct_update list_all_update)

lemma sm_ok_set_request_state: "sm_ok sm \<Longrightarrow> sm_ok (set_request_state request sm)"
  by (simp add: set_request_state_def sm_ok_update)

lemma sm_ok_add_response: "sm_ok sm \<Longrightarrow> sm_ok (add_response response sm)"
proof (cases "map_of sm (m_request_id response)")
  case None
  then show "sm_ok sm \<Longrightarrow> ?thesis" by (simp add: add_response_def)
next
  case (Some a)
  assume ok: "sm_ok sm"
  obtain request rs where a: "a = (request, rs)" by (cases a)
  from Some have "(m_request_id response, a) \<in> set sm" by (rule map_of_SomeD)
  with ok a have "r_id request = m_request_id response"
    by (auto simp: sm_ok_def list_all_iff)
  with ok Some a show ?thesis by (simp add: add_response_def sm_ok_update)
qed

lemma map_of_set_request_state:
  "map_of (set_request_state request sm) request_id =
     (if request_id = r_id request
      then Some (request, case map_of sm request_id of None \<Rightarrow> [] | Some (r, rs) \<Rightarrow> rs)
      else map_of sm request_id)"
  by (simp add: set_request_state_def update_conv')

lemma keys_set_request_state:
  "fst ` set (set_request_state request sm) = insert (r_id request) (fst ` set sm)"
  by (simp add: set_request_state_def dom_update)

lemma read_requests_result:
  "read_requests requests (sm, m, c) = (sm', m', c') \<Longrightarrow>
     c' = c + length requests \<and>
     m' = (if requests = [] then m else hex8 (fst (last requests))) \<and>
     (sm_ok sm \<longrightarrow> sm_ok sm') \<and>
     fst ` set sm' = fst ` set sm \<union> (r_id \<circ> snd) ` set requests"
proof (induction requests arbitrary: sm m c)
  case Nil
  then show ?case by simp
next
  case (Cons a requests)
  obtain k request where a: "a = (k, request)" by (cases a)
  from Cons.prems a
  have r: "read_requests requests (set_request_state request sm, hex8 k, c + 1) = (sm', m', c')"
    by simp
  note IH = Cons.IH[OF r]
  have 1: "c' = c + length (a # requests)" using IH by simp
  have 2: "m' = (if a # requests = [] then m else hex8 (fst (last (a # requests))))"
    using IH a by simp
  have 3: "sm_ok sm \<longrightarrow> sm_ok sm'" using IH by (simp add: sm_ok_set_request_state)
  have 4: "fst ` set sm' = fst ` set sm \<union> (r_id \<circ> snd) ` set (a # requests)"
    using IH a by (simp add: keys_set_request_state)
  from 1 2 3 4 show ?case by (intro conjI)
qed

lemma read_requests_map_of:
  "read_requests requests (sm, m, c) = (sm', m', c') \<Longrightarrow>
     map_of sm' request_id =
       (if filter (\<lambda>request. r_id request = request_id) (map snd requests) = []
        then map_of sm request_id
        else Some (last (filter (\<lambda>request. r_id request = request_id) (map snd requests)),
                   case map_of sm request_id of None \<Rightarrow> [] | Some (r, rs) \<Rightarrow> rs))"
proof (induction requests arbitrary: sm m c)
  case Nil
  then show ?case by simp
next
  case (Cons a requests)
  obtain k request where a: "a = (k, request)" by (cases a)
  from Cons.prems a
  have r: "read_requests requests (set_request_state request sm, hex8 k, c + 1) = (sm', m', c')"
    by simp
  show ?case
    unfolding Cons.IH[OF r] a
    by (simp add: map_of_set_request_state)
qed

lemma map_of_add_response:
  "map_of (add_response response sm) request_id =
     (if request_id = m_request_id response
      then map_option (\<lambda>(request, rs). (request, rs @ [response])) (map_of sm request_id)
      else map_of sm request_id)"
  by (cases "map_of sm (m_request_id response)")
     (auto simp: add_response_def update_conv')

lemma keys_add_response: "map fst (add_response response sm) = map fst sm"
proof (cases "map_of sm (m_request_id response)")
  case None
  then show ?thesis by (simp add: add_response_def)
next
  case (Some a)
  then have "m_request_id response \<in> fst ` set sm"
    by (metis domI dom_map_of_conv_image_fst)
  with Some show ?thesis
    by (cases a) (simp add: add_response_def update_keys)
qed

lemma read_responses_result:
  "read_responses responses m (sm, c) = (sm', c') \<Longrightarrow>
     c' = c + responses_read m responses \<and> (sm_ok sm \<longrightarrow> sm_ok sm') \<and>
     map fst sm' = map fst sm"
proof (induction responses arbitrary: sm c)
  case Nil
  then show ?case by (simp add: responses_read_def responses_joined_def)
next
  case (Cons a responses)
  obtain k i response where a: "a = ((k, i), response)" by (cases a) auto
  show ?case
  proof (cases "hex8 k > m")
    case True
    then have "\<not> hex8 k \<le> m" by simp
    with True Cons.prems a show ?thesis by (simp add: responses_read_def responses_joined_def)
  next
    case False
    with Cons.prems Cons.IH[of "add_response response sm" "c + 1"] a
    show ?thesis
      by (auto simp: responses_read_def responses_joined_def Let_def sm_ok_add_response
          keys_add_response)
  qed
qed

lemma read_responses_map_of:
  "read_responses responses m (sm, c) = (sm', c') \<Longrightarrow>
     map_of sm' request_id =
       map_option
         (\<lambda>(request, rs).
            (request, rs @ filter (\<lambda>response. m_request_id response = request_id)
                             (map snd (responses_joined m responses))))
         (map_of sm request_id)"
proof (induction responses arbitrary: sm c)
  case Nil
  then show ?case
    by (cases "map_of sm request_id") (auto simp: responses_joined_def)
next
  case (Cons a responses)
  obtain k i response where a: "a = ((k, i), response)" by (cases a) auto
  show ?case
  proof (cases "hex8 k > m")
    case True
    with Cons.prems a show ?thesis
      by (cases "map_of sm request_id") (auto simp: responses_joined_def)
  next
    case False
    with Cons.prems a
    have r: "read_responses responses m (add_response response sm, c + 1) = (sm', c')"
      by simp
    have j: "responses_joined m (a # responses) = a # responses_joined m responses"
      using False a by (simp add: responses_joined_def)
    show ?thesis
      unfolding Cons.IH[OF r] j
      by (cases "map_of sm request_id") (auto simp: map_of_add_response a)
  qed
qed

lemma sort_key_Nil_iff: "sort_key f xs = [] \<longleftrightarrow> xs = []"
  by (metis length_sort length_0_conv)

lemma map_sort_key: "map f (sort_key f xs) = sort (map f xs)"
  by (rule properties_for_sort[symmetric]) simp_all

lemma sort_key_fst_distinct:
  assumes "distinct (map fst al)"
  shows "sort_key fst al = map (\<lambda>k. (k, the (map_of al k))) (sort (map fst al))"
proof -
  have "\<forall>x \<in> set (sort_key fst al). (fst x, the (map_of al (fst x))) = x"
  proof
    fix x assume "x \<in> set (sort_key fst al)"
    then have "(fst x, snd x) \<in> set al" by simp
    with assms have "map_of al (fst x) = Some (snd x)" by (rule map_of_is_SomeI)
    then show "(fst x, the (map_of al (fst x))) = x" by simp
  qed
  then have "map (\<lambda>x. (fst x, the (map_of al (fst x)))) (sort_key fst al) = sort_key fst al"
    by (intro map_idI) blast
  then have "sort_key fst al = map (\<lambda>k. (k, the (map_of al k))) (map fst (sort_key fst al))"
    by (simp add: comp_def)
  then show ?thesis unfolding map_sort_key .
qed

lemma set_request_ids:
  "set (request_ids requests) = insert 0 (set (map (r_id \<circ> snd) requests))"
  unfolding request_ids_def by (simp only: set_sort set_remdups list.set)

lemma request_ids_sorted: "sorted_wrt (<) (request_ids requests)"
  by (simp add: request_ids_def strict_sorted_iff)

lemma stored_request_id:
  assumes "request_id \<in> set (request_ids requests)"
  shows "r_id (stored_request requests request_id) = request_id"
proof (cases "filter (\<lambda>request. r_id request = request_id)
                (map snd (sort_key request_predicate requests)) = []")
  case True
  then have "request_id \<notin> set (map (r_id \<circ> snd) requests)"
    by (auto simp: filter_empty_conv)
  with assms have "request_id = 0" unfolding set_request_ids by blast
  with True show ?thesis by (simp add: stored_request_def RequestState0_def)
next
  case False
  let ?found = "filter (\<lambda>request. r_id request = request_id)
                  (map snd (sort_key request_predicate requests))"
  from False have "last ?found \<in> set ?found" by (rule last_in_set)
  then have "r_id (last ?found) = request_id" by simp
  with False show ?thesis by (simp add: stored_request_def Let_def)
qed

lemma yields_map_Yield_if:
  "yields (map (\<lambda>x. Yield (f x)) xs @ (if b then [GenRaise e] else [])) = map f xs"
  by (induction xs) simp_all

text \<open>The whole of the generator.\<close>

lemma FetchRequestsAndResponses_joined:
  "FetchRequestsAndResponses requests responses =
     map (\<lambda>request_id. Yield (stored_request requests request_id,
                               joined_responses requests responses request_id))
       (request_ids requests) @
     (if length requests \<ge> request_limit \<or>
         responses_read (last_request_key requests) (sort_key response_predicate responses)
           \<ge> response_limit
      then [GenRaise MoreDataException] else [])"
proof -
  let ?R = "sort_key request_predicate requests"
  let ?P = "sort_key response_predicate responses"
  let ?sm0 = "[(0, RequestState0, [])] :: state_map"
  obtain sm m c where rr: "read_requests ?R (?sm0, ''00000000'', 0) = (sm, m, c)"
    by (metis prod_cases3)
  obtain sm' c' where rp: "read_responses ?P m (sm, 0) = (sm', c')"
    by (metis surj_pair)
  have ok0: "sm_ok ?sm0" by (simp add: sm_ok_def RequestState0_def)
  from read_requests_result[OF rr] ok0
  have c: "c = length requests" and m: "m = last_request_key requests" and ok: "sm_ok sm"
    and keys: "fst ` set sm = insert 0 ((r_id \<circ> snd) ` set requests)"
    by (simp_all add: last_request_key_def sort_key_Nil_iff)
  from read_responses_result[OF rp] ok
  have c': "c' = responses_read m ?P" and ok': "sm_ok sm'" and keys': "map fst sm' = map fst sm"
    by auto
  have d: "distinct (map fst sm')" using ok' by (simp add: sm_ok_def)
  have ids: "sort (map fst sm') = request_ids requests"
  proof (rule sorted_distinct_set_unique)
    show "sorted (sort (map fst sm'))" by simp
    show "distinct (sort (map fst sm'))" using d by simp
    show "sorted (request_ids requests)" by (simp add: request_ids_def)
    show "distinct (request_ids requests)" by (simp add: request_ids_def)
    show "set (sort (map fst sm')) = set (request_ids requests)"
      using keys keys' unfolding set_request_ids by simp
  qed
  have v: "the (map_of sm' request_id) =
             (stored_request requests request_id, joined_responses requests responses request_id)"
    if "request_id \<in> set (request_ids requests)" for request_id
  proof -
    have s: "map_of sm request_id = Some (stored_request requests request_id, [])"
    proof (cases "filter (\<lambda>request. r_id request = request_id) (map snd ?R) = []")
      case True
      then have "request_id \<notin> set (map (r_id \<circ> snd) requests)"
        by (auto simp: filter_empty_conv)
      with that have "request_id = 0" unfolding set_request_ids by blast
      with True show ?thesis
        unfolding read_requests_map_of[OF rr] by (simp add: stored_request_def)
    next
      case False
      then show ?thesis
        unfolding read_requests_map_of[OF rr] by (simp add: stored_request_def Let_def)
    qed
    show ?thesis
      unfolding read_responses_map_of[OF rp] s
      by (simp add: joined_responses_def m)
  qed
  have "map (\<lambda>(request_id, metadata). Yield metadata) (sort_key fst sm') =
        map (\<lambda>request_id. Yield (the (map_of sm' request_id))) (request_ids requests)"
    unfolding sort_key_fst_distinct[OF d] ids by (simp add: comp_def)
  also have "\<dots> = map (\<lambda>request_id. Yield (stored_request requests request_id,
                               joined_responses requests responses request_id))
                    (request_ids requests)"
    by (rule map_cong) (simp_all add: v)
  finally have y: "map (\<lambda>(request_id, metadata). Yield metadata) (sort_key fst sm') =
        map (\<lambda>request_id. Yield (stored_request requests request_id,
                               joined_responses requests responses request_id))
          (request_ids requests)" .
  have "FetchRequestsAndResponses requests responses =
     map (\<lambda>request_id. Yield (stored_request requests request_id,
                               joined_responses requests responses request_id))
       (request_ids requests) @
     (if c \<ge> request_limit \<or> c' \<ge> response_limit
      then [GenRaise MoreDataException] else [])"
    by (simp only: FetchRequestsAndResponses_def rr Let_def prod.case rp y)
  then show ?thesis unfolding c c' m .
qed

text \<open>
  Claim C6, as amended.  \<open>FetchRequestsAndResponses\<close> yields exactly the joined
  pairs, one for the id 0 and one for the id of each stored request of the request scan,
  in strictly ascending order of request id: each pair holds the stored request of its
  id and the joined responses with that \<open>request_id\<close>.  It raises
  \<open>MoreDataException\<close> only behind the last pair, exactly when the request scan
  returned at least \<open>request_limit\<close> rows or the second loop took at least
  \<open>response_limit\<close> rows from the response scan.  The second loop goes through the
  response scan in the order of the column names and stops at the first row whose
  request number, written with \<^verbatim>\<open>%08X\<close>, is greater as a string than that of the
  last request row; the rows in front of it are the ones joined, and it is the last row
  counted.
\<close>

theorem FetchRequestsAndResponses_ascending_then_more_data:
  "FetchRequestsAndResponses requests responses =
     map (\<lambda>request_id. Yield (stored_request requests request_id,
                               joined_responses requests responses request_id))
       (request_ids requests) @
     (if length requests \<ge> request_limit \<or>
         responses_read (last_request_key requests) (sort_key response_predicate responses)
           \<ge> response_limit
      then [GenRaise MoreDataException] else []) \<and>
   map (r_id \<circ> fst) (yields (FetchRequestsAndResponses requests responses)) =
     request_ids requests \<and>
   sorted_wrt (<) (request_ids requests)"
proof -
  have "map (r_id \<circ> fst) (yields (FetchRequestsAndResponses requests responses)) =
        map (\<lambda>request_id. r_id (stored_request requests request_id)) (request_ids requests)"
    unfolding FetchRequestsAndResponses_joined yields_map_Yield_if by (simp add: comp_def)
  also have "\<dots> = map (\<lambda>request_id. request_id) (request_ids requests)"
    by (rule map_cong) (simp_all add: stored_request_id)
  finally have "map (r_id \<circ> fst) (yields (FetchRequestsAndResponses requests responses)) =
     request_ids requests" by simp
  with FetchRequestsAndResponses_joined request_ids_sorted show ?thesis by blast
qed

lemma responses_joined_none:
  assumes "\<forall>row \<in> set responses. max_request_id < hex8 (fst (fst row))"
  shows "responses_joined max_request_id (sort_key f responses) = []"
proof (cases "sort_key f responses")
  case Nil
  then show ?thesis by (simp add: responses_joined_def)
next
  case (Cons row rest)
  then have "row \<in> set (sort_key f responses)" by simp
  then have "row \<in> set responses" by simp
  with assms have "\<not> hex8 (fst (fst row)) \<le> max_request_id" by auto
  with Cons show ?thesis by (simp add: responses_joined_def)
qed

lemma orphan_map: "orphan_responses n = map (\<lambda>i. ((5, i), GrrMessage0)) [1..<Suc n]"
  by (simp add: orphan_responses_def zip_replicate1 zip_replicate2)

lemma orphan_length: "length (orphan_responses n) = n"
  by (simp add: orphan_map)

lemma replicate_numeral: "replicate (numeral k) x = x # replicate (pred_numeral k) x"
  by (simp add: numeral_eq_Suc)

lemmas hex8_simps = hex8_def hex.simps hex_digit_def replicate_numeral

lemma hex8_5: "hex8 5 = ''00000005''"
  by (simp add: hex8_simps)

lemma hex8_small:
  "hex8 0 = ''00000000''" "hex8 (Suc 0) = ''00000001''" "hex8 1 = ''00000001''"
  "hex8 2 = ''00000002''" "hex8 3 = ''00000003''"
  by (simp_all add: hex8_simps)

lemma orphan_joined:
  "responses_joined ''00000000'' (sort_key response_predicate (orphan_responses n)) = []"
  by (rule responses_joined_none) (auto simp: orphan_map hex8_5)

text \<open>
  Claim C6 as stated fails: a response scan of 100000 rows, all of them responses to a
  request beyond the last request column read, ends the second loop at its first row, and
  no \<open>MoreDataException\<close> is raised.
\<close>

theorem FetchRequestsAndResponses_full_scan_counterexample:
  "length (orphan_responses 100000) \<ge> response_limit \<and>
   FetchRequestsAndResponses [] (orphan_responses 100000) = [Yield (RequestState0, [])]"
proof -
  have l: "length (orphan_responses 100000) \<ge> response_limit"
    by (simp add: orphan_length response_limit_def)
  have r: "responses_read ''00000000'' (sort_key response_predicate (orphan_responses 100000)) = 1"
    by (simp add: responses_read_def orphan_joined orphan_length)
  have "FetchRequestsAndResponses [] (orphan_responses 100000) = [Yield (RequestState0, [])]"
    unfolding FetchRequestsAndResponses_joined
    by (simp add: request_ids_def stored_request_def joined_responses_def last_request_key_def
        orphan_joined r request_limit_def response_limit_def)
  with l show ?thesis by simp
qed

lemma hex8_wide:
  "hex8 268435456 = ''10000000''" "hex8 4294967296 = ''100000000''"
  "hex8 (Suc 0) = ''00000001''"
  by (simp_all add: hex8_simps)

lemma wide_sorted:
  "sort_key response_predicate wide_responses =
     [((4294967296, 1), GrrMessage0\<lparr>m_request_id := 4294967296, m_response_id := 1\<rparr>),
      ((268435456, 1), GrrMessage0\<lparr>m_request_id := 268435456, m_response_id := 1\<rparr>)]"
  by (simp add: wide_responses_def response_predicate_def FLOW_RESPONSE_TEMPLATE_def hex8_wide)

text \<open>
  The comparisons are comparisons of text: the response to request \<open>0x100000000\<close>
  sorts in front of the response to request \<open>0x10000000\<close> and ends the second loop
  at once, so the request is yielded without its response.
\<close>

lemma FetchRequestsAndResponses_wide_request_number:
  "FetchRequestsAndResponses [(268435456, wide_request)] wide_responses =
     [Yield (RequestState0, []), Yield (wide_request, [])]"
  unfolding FetchRequestsAndResponses_joined
  by (simp add: wide_sorted request_ids_def stored_request_def joined_responses_def
      last_request_key_def responses_joined_def responses_read_def hex8_wide
      request_limit_def response_limit_def wide_request_def RequestState0_def)

section \<open>SendReply, CallClient and CallFlow\<close>


lemma SendReply_notifies:
  assumes "pb_request_state (flow_pb s) = Some rs" and "r_response_count rs < uint32_max"
  shows "notified (snd (SendReply response_proto s)) =
           notified s @ [(worker_queue_of (r_session_id rs), r_session_id rs)]"
  using assms
  by (simp add: SendReply_def Let_def with_FlowManager_def Flush_def MultiSet_def Schedule_def
      Delete_def NotifyQueue_def case_prod_unfold
      split: option.splits res.splits prod.splits)

lemma SendReply_full_response_count:
  assumes "pb_request_state (flow_pb s) = Some rs" and "uint32_max \<le> r_response_count rs"
  shows "SendReply response_proto s = (Raise (PyException ''ValueError''), s)"
  using assms by (simp add: SendReply_def)

text \<open>
  Claim C7, as amended.  When the flow has a parent request whose response count is
  below the top of its \<open>uint32\<close> range, \<open>SendReply\<close> always notifies the parent's
  worker queue (the part of the parent's session id before the first colon), whatever
  the payload and whatever fails on the way.  With a \<open>GrrStatus\<close> payload, and the
  scheduler and the data store working, the reply written to the parent's state subject
  has the parent's incremented response count as its response id, the parent request's
  id, type \<open>STATUS\<close>, and a status carrying the child's session id and its
  accumulated CPU times and network bytes; the same message is scheduled as a task on
  the parent's worker queue.  When the response count is at the top of its range, the
  increment raises \<open>ValueError\<close>: \<open>SendReply\<close> is left by that exception with
  nothing sent and nobody notified.
\<close>

theorem SendReply_status_reaches_parent:
  assumes "pb_request_state (flow_pb s) = Some rs"
  shows "(r_response_count rs < uint32_max \<longrightarrow>
            notified (snd (SendReply response_proto s)) =
              notified s @ [(worker_queue_of (r_session_id rs), r_session_id rs)] \<and>
            (schedule_raises s = None \<and> multiset_raises s = None \<longrightarrow>
               (let msg = \<lparr>m_session_id = r_session_id rs, m_name = [], m_request_id = r_id rs,
                            m_response_id = r_response_count rs + 1, m_type = STATUS,
                            m_auth_state = AUTHENTICATED, m_priority = 0,
                            m_args = Status (st\<lparr>st_user_cpu_time := pb_user_cpu_time (flow_pb s),
                                        st_system_cpu_time := pb_system_cpu_time (flow_pb s),
                                        st_network_bytes_sent := pb_network_bytes_sent (flow_pb s),
                                        st_child_session_id := session_id s\<rparr>)\<rparr>;
                    s' = snd (SendReply (Status st) s)
                in fst (SendReply (Status st) s) = Return () \<and>
                   pb_request_state (flow_pb s') =
                     Some (rs\<lparr>r_response_count := r_response_count rs + 1\<rparr>) \<and>
                   store s' (subject (r_session_id rs)) =
                     store s (subject (r_session_id rs)) @
                     [(ResponseColumn (r_id rs) (r_response_count rs + 1), StoredMessage msg)] \<and>
                   tasks s' =
                     tasks s @ [\<lparr>t_queue = worker_queue_of (r_session_id rs), t_id = next_task_id s,
                                  t_sync = False, t_value = msg\<rparr>]))) \<and>
         (uint32_max \<le> r_response_count rs \<longrightarrow>
            SendReply response_proto s = (Raise (PyException ''ValueError''), s))"
proof (intro conjI impI)
  assume "r_response_count rs < uint32_max"
  with assms show "notified (snd (SendReply response_proto s)) =
           notified s @ [(worker_queue_of (r_session_id rs), r_session_id rs)]"
    by (rule SendReply_notifies)
next
  assume "r_response_count rs < uint32_max" and "schedule_raises s = None \<and> multiset_raises s = None"
  with assms
  show "let msg = \<lparr>m_session_id = r_session_id rs, m_name = [], m_request_id = r_id rs,
                            m_response_id = r_response_count rs + 1, m_type = STATUS,
                            m_auth_state = AUTHENTICATED, m_priority = 0,
                            m_args = Status (st\<lparr>st_user_cpu_time := pb_user_cpu_time (flow_pb s),
                                        st_system_cpu_time := pb_system_cpu_time (flow_pb s),
                                        st_network_bytes_sent := pb_network_bytes_sent (flow_pb s),
                                        st_child_session_id := session_id s\<rparr>)\<rparr>;
                    s' = snd (SendReply (Status st) s)
                in fst (SendReply (Status st) s) = Return () \<and>
                   pb_request_state (flow_pb s') =
                     Some (rs\<lparr>r_response_count := r_response_count rs + 1\<rparr>) \<and>
                   store s' (subject (r_session_id rs)) =
                     store s (subject (r_session_id rs)) @
                     [(ResponseColumn (r_id rs) (r_response_count rs + 1), StoredMessage msg)] \<and>
                   tasks s' =
                     tasks s @ [\<lparr>t_queue = worker_queue_of (r_session_id rs), t_id = next_task_id s,
                                  t_sync = False, t_value = msg\<rparr>]"
    by (simp add: SendReply_def Let_def with_FlowManager_def Flush_def MultiSet_def Schedule_def
        Delete_def NotifyQueue_def FlowManager_def QueueResponse_def setdefault_append_def
        GrrMessage0_def)
next
  assume "uint32_max \<le> r_response_count rs"
  with assms show "SendReply response_proto s = (Raise (PyException ''ValueError''), s)"
    by (rule SendReply_full_response_count)
qed

theorem SendReply_status_reaches_parent_witness:
  "pb_request_state (flow_pb child_sys) = Some parent_request \<and>
   r_response_count parent_request < uint32_max \<and>
   schedule_raises child_sys = None \<and> multiset_raises child_sys = None \<and>
   notified (snd (SendReply (Status GrrStatus0) child_sys)) = [(''W'', ''W:AA'')] \<and>
   fst (SendReply (Status GrrStatus0) child_sys) = Return () \<and>
   map t_queue (tasks (snd (SendReply (Status GrrStatus0) child_sys))) = [''W''] \<and>
   map (m_response_id \<circ> t_value) (tasks (snd (SendReply (Status GrrStatus0) child_sys))) = [2]"
proof -
  have h: "pb_request_state (flow_pb child_sys) = Some parent_request"
    by (simp add: child_sys_def sys0_def)
  have c: "r_response_count parent_request < uint32_max"
    by (simp add: parent_request_def uint32_max_def)
  have q: "worker_queue_of (r_session_id parent_request) = ''W''"
    by (simp add: worker_queue_of_def parent_request_def)
  show ?thesis
    using SendReply_status_reaches_parent [OF h, of "Status GrrStatus0" GrrStatus0] h c q
    by (simp add: Let_def child_sys_def sys0_def parent_request_def)
qed

text \<open>
  Claim C7 as stated fails: the parent request has counted \<open>2^32 - 1\<close> responses, and
  \<open>SendReply\<close> raises before it sends or notifies anything.
\<close>

theorem SendReply_full_response_count_counterexample:
  "pb_request_state (flow_pb full_child_sys) = Some full_parent_request \<and>
   SendReply (Status GrrStatus0) full_child_sys =
     (Raise (PyException ''ValueError''), full_child_sys) \<and>
   notified full_child_sys = [] \<and> tasks full_child_sys = []"
  by (simp add: SendReply_def full_child_sys_def full_parent_request_def sys0_def
      uint32_max_def)


text \<open>
  Claim C9.  A flow without a parent request (\<open>flow_pb\<close> has no field
  \<open>request_state\<close>) ignores \<open>SendReply\<close>: the call returns and nothing of the
  context, the data store, the scheduler or the journal changes.
\<close>

theorem SendReply_without_parent:
  "pb_request_state (flow_pb s) = None \<Longrightarrow> SendReply response_proto s = (Return (), s)"
  by (simp add: SendReply_def)

theorem SendReply_without_parent_witness:
  "pb_request_state (flow_pb sys0) = None \<and>
   SendReply (Status GrrStatus0) sys0 = (Return (), sys0)"
  using SendReply_without_parent [of sys0 "Status GrrStatus0"]
  by (simp add: sys0_def flow_pb0_def)

text \<open>
  Claim C8, as amended.  In a context that processes its requests in order,
  \<open>CallClient\<close> raises \<open>FlowContextError\<close> whenever \<open>next_state\<close> is missing or
  not among the declared next states, and \<open>CallFlow\<close> raises it whenever a
  non-empty \<open>next_state\<close> is given that is not among them; the failed call leaves
  everything as it was (no pending request, no outbound id consumed, the count of
  outstanding requests unchanged).
\<close>

theorem Call_invalid_next_state:
  "process_requests_in_order cls \<Longrightarrow>
     (next_state \<notin> Some ` set (next_states s) \<longrightarrow>
        CallClient cls action_name args_pb next_state request_data client s =
          (Raise FlowContextError, s)) \<and>
     (truthy next_state \<and> next_state \<notin> Some ` set (next_states s) \<longrightarrow>
        CallFlow cls fl flow_name next_state request_data client kwargs s =
          (Raise FlowContextError, s))"
  by (cases next_state) (auto simp: CallClient_def CallFlow_def Let_def)

theorem Call_invalid_next_state_witness:
  "process_requests_in_order FlowContext \<and>
   Some ''Nope'' \<notin> Some ` set (next_states sys0) \<and> truthy (Some ''Nope'') \<and>
   CallClient FlowContext ''Echo'' (DataBlob ''x'') (Some ''Nope'') None None sys0 =
     (Raise FlowContextError, sys0) \<and>
   CallFlow FlowContext failing_flow ''Child'' (Some ''Nope'') None None [] sys0 =
     (Raise FlowContextError, sys0)"
  using Call_invalid_next_state [of FlowContext "Some ''Nope''" sys0 "''Echo''" "DataBlob ''x''" None None
      failing_flow "''Child''" "[]"]
  by (simp add: sys0_def)

text \<open>
  Claim C8 as stated fails for \<open>CallFlow\<close>: called without a \<open>next_state\<close>, which
  is not in the declared list, it skips the check, consumes an outbound id and queues
  the request.
\<close>

theorem CallFlow_without_next_state_counterexample:
  "process_requests_in_order FlowContext \<and>
   None \<notin> Some ` set (next_states sys0) \<and>
   fst (CallFlow FlowContext failing_flow ''Child'' None None None [] sys0) = Return () \<and>
   next_outbound_id (snd (CallFlow FlowContext failing_flow ''Child'' None None None [] sys0)) =
     next_outbound_id sys0 + 1 \<and>
   length (new_request_states (snd (CallFlow FlowContext failing_flow ''Child'' None None None [] sys0))) =
     length (new_request_states sys0) + 1 \<and>
   outstanding_requests (snd (CallFlow FlowContext failing_flow ''Child'' None None None [] sys0)) =
     outstanding_requests sys0 + 1"
  by (simp add: CallFlow_def sys0_def failing_flow_def GetNextOutboundId_def py_or_def Let_def)

section \<open>The flow manager's dequeue of client tasks\<close>


lemma for_loop_Continue:
  "snd (for_loop (\<lambda>x a. Continue (f x a)) items a) = fold f (yields items) a"
proof (induction items arbitrary: a)
  case Nil
  then show ?case by simp
next
  case (Cons item items)
  then show ?case by (cases item) simp_all
qed

lemma Flush_deleted:
  "multiset_raises s = None \<or> multiset_raises s = Some DataStoreError \<Longrightarrow>
   deleted (snd (snd (Flush fm s))) = deleted s @ [(fm_client_id fm, client_messages fm)]"
  by (auto simp: Flush_def MultiSet_def Delete_def)

lemma with_FlowManager_deleted:
  assumes "multiset_raises s = None \<or> multiset_raises s = Some DataStoreError"
    and "body (FlowManager sid) s = (r, fm, s1)"
    and "multiset_raises s1 = multiset_raises s"
  shows "deleted (snd (with_FlowManager sid body s)) =
           deleted s1 @ [(fm_client_id fm, client_messages fm)]"
proof -
  obtain fr fm' s2 where f: "Flush fm s1 = (fr, fm', s2)" by (metis prod_cases3)
  with Flush_deleted[of s1 fm] assms have "deleted s2 = deleted s1 @ [(fm_client_id fm, client_messages fm)]"
    by simp
  with f assms(2) show ?thesis by (simp add: with_FlowManager_def split: res.splits)
qed

lemma fold_Delete_messages:
  "client_messages
     (fold (\<lambda>(request, responses). DeleteFlowRequestStates (Some request) responses) items fm) =
     client_messages fm @ map (r_ts_id \<circ> fst) items \<and>
   fm_client_id
     (fold (\<lambda>(request, responses). DeleteFlowRequestStates (Some request) responses) items fm) =
     (if items = [] then fm_client_id fm else Some (r_client_id (fst (last items))))"
  by (induction items arbitrary: fm) (auto simp: DeleteFlowRequestStates_def Let_def)

lemma fold_Destroy_messages:
  "client_messages
     (fold (\<lambda>(request_state, responses) fm.
              fm\<lparr>client_messages := client_messages fm @ [r_ts_id request_state],
                 fm_client_id := Some (r_client_id request_state)\<rparr>) items fm) =
     client_messages fm @ map (r_ts_id \<circ> fst) items \<and>
   fm_client_id
     (fold (\<lambda>(request_state, responses) fm.
              fm\<lparr>client_messages := client_messages fm @ [r_ts_id request_state],
                 fm_client_id := Some (r_client_id request_state)\<rparr>) items fm) =
     (if items = [] then fm_client_id fm else Some (r_client_id (fst (last items)))) \<and>
   fm_session_id
     (fold (\<lambda>(request_state, responses) fm.
              fm\<lparr>client_messages := client_messages fm @ [r_ts_id request_state],
                 fm_client_id := Some (r_client_id request_state)\<rparr>) items fm) =
     fm_session_id fm"
  by (induction items arbitrary: fm) auto

lemma yields_map_Yield: "yields (map (\<lambda>x. Yield (f x)) xs @ ys) = map f xs @ yields ys"
  by (induction xs) auto

lemma Fetch_yields_nonempty: "yields (FetchRequestsAndResponses requests responses) \<noteq> []"
proof -
  have "0 \<in> set (request_ids requests)" unfolding set_request_ids by simp
  then have "request_ids requests \<noteq> []" by auto
  then show ?thesis
    unfolding FetchRequestsAndResponses_joined yields_map_Yield_if by simp
qed

text \<open>
  Claim C10.  A flow manager keeps one \<open>client_id\<close> field, overwritten by each
  request that \<open>DeleteFlowRequestStates\<close> or \<open>DestroyFlowStates\<close> records.  So the
  \<open>Flush\<close> at the end of the \<open>with\<close> block makes one call of the scheduler's
  \<open>Delete\<close>, for the client of the last request recorded and with the task ids of all
  of them, whatever clients the other requests belong to.  (The data store may fail
  with its own error, which \<open>Flush\<close> swallows.)
\<close>

theorem Flush_deletes_for_last_client_only:
  assumes "multiset_raises s = None \<or> multiset_raises s = Some DataStoreError"
  shows "(items \<noteq> [] \<longrightarrow>
          deleted (snd (with_FlowManager sid
             (\<lambda>flow_manager s.
                (Return (),
                 fold (\<lambda>(request, responses). DeleteFlowRequestStates (Some request) responses)
                   items flow_manager, s)) s)) =
            deleted s @ [(Some (r_client_id (fst (last items))), map (r_ts_id \<circ> fst) items)]) \<and>
         deleted (snd (with_FlowManager sid DestroyFlowStates s)) =
           deleted s @
           [(Some (r_client_id (fst (last (yields (Fetch (FlowManager sid) s))))),
             map (r_ts_id \<circ> fst) (yields (Fetch (FlowManager sid) s)))]"
proof (intro conjI impI)
  assume ne: "items \<noteq> []"
  define del :: "request_state \<times> grr_message list \<Rightarrow> flow_manager \<Rightarrow> flow_manager" where "del = (\<lambda>(request, responses). DeleteFlowRequestStates (Some request) responses)"
  define fm :: flow_manager where "fm = fold del items (FlowManager sid)"
  define body where "body = (\<lambda>flow_manager s :: sys. (Return () :: unit res, fold del items flow_manager, s))"
  have b: "body (FlowManager sid) s = (Return (), fm, s)" by (simp add: body_def fm_def)
  have cm: "client_messages fm = map (r_ts_id \<circ> fst) items"
    and ci: "fm_client_id fm = Some (r_client_id (fst (last items)))"
    using fold_Delete_messages[of items "FlowManager sid"] ne
    unfolding fm_def del_def by (simp_all add: FlowManager_def)
  have "deleted (snd (with_FlowManager sid body s)) =
          deleted s @ [(fm_client_id fm, client_messages fm)]"
    using assms b by (rule with_FlowManager_deleted) simp
  then show "deleted (snd (with_FlowManager sid
             (\<lambda>flow_manager s.
                (Return (),
                 fold (\<lambda>(request, responses). DeleteFlowRequestStates (Some request) responses)
                   items flow_manager, s)) s)) =
            deleted s @ [(Some (r_client_id (fst (last items))), map (r_ts_id \<circ> fst) items)]"
    unfolding body_def del_def cm ci .
next
  define ys where "ys = yields (Fetch (FlowManager sid) s)"
  define step :: "request_state \<times> grr_message list \<Rightarrow> flow_manager \<Rightarrow> flow_manager" where "step = (\<lambda>(request_state, responses) fm.
                fm\<lparr>client_messages := client_messages fm @ [r_ts_id request_state],
                   fm_client_id := Some (r_client_id request_state)\<rparr>)"
  obtain r fm where l: "for_loop (\<lambda>x a. Continue (step x a)) (Fetch (FlowManager sid) s) (FlowManager sid) = (r, fm)"
    by (metis surj_pair)
  have fm: "fm = fold step ys (FlowManager sid)"
    using for_loop_Continue[of step "Fetch (FlowManager sid) s" "FlowManager sid"] l
    by (simp add: ys_def)
  have ne: "ys \<noteq> []" by (simp add: ys_def Fetch_def Fetch_yields_nonempty)
  have cm: "client_messages fm = map (r_ts_id \<circ> fst) ys"
    and ci: "fm_client_id fm = Some (r_client_id (fst (last ys)))"
    and si: "fm_session_id fm = sid"
    using fold_Destroy_messages[of ys "FlowManager sid"] ne unfolding fm step_def
    by (simp_all add: FlowManager_def)
  have e: "(\<lambda>(request_state, responses) fm. Continue
                (fm\<lparr>client_messages := client_messages fm @ [r_ts_id request_state],
                   fm_client_id := Some (r_client_id request_state)\<rparr>)) = (\<lambda>x a. Continue (step x a))"
    by (simp add: step_def fun_eq_iff)
  have d: "DestroyFlowStates (FlowManager sid) s =
             (case r of Raise e \<Rightarrow> (Raise e, fm, s)
              | Return u \<Rightarrow> (Return (), fm, DeleteSubject (subject (fm_session_id fm)) s))"
    unfolding DestroyFlowStates_def e l by (simp split: res.splits)
  obtain r' s1 where d': "DestroyFlowStates (FlowManager sid) s = (r', fm, s1)"
      and s1: "multiset_raises s1 = multiset_raises s" "deleted s1 = deleted s"
    unfolding d by (cases r) (simp_all add: DeleteSubject_def)
  have "deleted (snd (with_FlowManager sid DestroyFlowStates s)) =
           deleted s1 @ [(fm_client_id fm, client_messages fm)]"
    using assms d' s1(1) by (rule with_FlowManager_deleted)
  then show "deleted (snd (with_FlowManager sid DestroyFlowStates s)) =
           deleted s @
           [(Some (r_client_id (fst (last (yields (Fetch (FlowManager sid) s))))),
             map (r_ts_id \<circ> fst) (yields (Fetch (FlowManager sid) s)))]"
    unfolding s1(2) cm ci ys_def .
qed


lemma subject_W1F: "subject ''W:1F'' = ''task:W:1F:state''"
  by (simp add: subject_def)

lemma Fetch_two_client_sys:
  "Fetch (FlowManager ''W:1F'') two_client_sys =
     [Yield (RequestState0, []), Yield (request_A, []), Yield (request_B, [])]"
  by (simp add: Fetch_def FlowManager_def subject_W1F two_client_sys_def sys0_def ResolveRegex_def
      FetchRequestsAndResponses_def request_limit_def response_limit_def
      request_predicate_def FLOW_REQUEST_TEMPLATE_def hex8_small
      set_request_state_def request_A_def request_B_def RequestState0_def)

theorem Flush_deletes_for_last_client_only_witness:
  "multiset_raises two_client_sys = None \<and>
   deleted (snd (with_FlowManager ''W:1F''
      (\<lambda>flow_manager s.
         (Return (),
          fold (\<lambda>(request, responses). DeleteFlowRequestStates (Some request) responses)
            [(request_A, []), (request_B, [])] flow_manager, s)) two_client_sys)) =
     [(Some ''C.2'', [7, 8])] \<and>
   deleted (snd (with_FlowManager ''W:1F'' DestroyFlowStates two_client_sys)) =
     [(Some ''C.2'', [0, 7, 8])]"
proof -
  have h: "multiset_raises two_client_sys = None \<or> multiset_raises two_client_sys = Some DataStoreError"
    and d: "deleted two_client_sys = []" and m: "multiset_raises two_client_sys = None"
    by (simp_all add: two_client_sys_def sys0_def)
  show ?thesis
    using Flush_deletes_for_last_client_only [OF h, of "[(request_A, []), (request_B, [])]" "''W:1F''"]
    by (simp add: Fetch_two_client_sys d m request_A_def request_B_def RequestState0_def)
qed


section \<open>Terminate\<close>

text \<open>
  Claim C4, at a flow with two outstanding requests for two clients.  \<open>Terminate\<close>
  returns, the flow is \<open>TERMINATED\<close> and its state subject is empty, but the
  scheduler's \<open>Delete\<close> was called once, for client \<open>C.2\<close> only: task 7 of the
  request sent to \<open>C.1\<close> was never passed to \<open>Delete\<close> for the queue of
  \<open>C.1\<close> and is still on it.
\<close>

theorem Terminate_two_clients:
  "fst (Terminate two_client_sys) = Return () \<and>
   pb_state (flow_pb (snd (Terminate two_client_sys))) = TERMINATED \<and>
   store (snd (Terminate two_client_sys)) (subject ''W:1F'') = [] \<and>
   deleted (snd (Terminate two_client_sys)) = [(Some ''C.2'', [0, 7, 8])] \<and>
   map t_queue (tasks (snd (Terminate two_client_sys))) = [''C.1''] \<and>
   map t_id (tasks (snd (Terminate two_client_sys))) = [7]"
proof -
  have s: "session_id two_client_sys = ''W:1F''" by (simp add: two_client_sys_def sys0_def)
  have l: "for_loop
             (\<lambda>(request_state, responses) fm.
                Continue (fm\<lparr>client_messages := client_messages fm @ [r_ts_id request_state],
                             fm_client_id := Some (r_client_id request_state)\<rparr>))
             (Fetch (FlowManager ''W:1F'') two_client_sys) (FlowManager ''W:1F'') =
           (Return (), (FlowManager ''W:1F'')\<lparr>client_messages := [0, 7, 8], fm_client_id := Some ''C.2''\<rparr>)"
    unfolding Fetch_two_client_sys
    by (simp add: FlowManager_def request_A_def request_B_def RequestState0_def)
  have w: "with_FlowManager ''W:1F'' DestroyFlowStates two_client_sys =
             (Return (), two_client_sys\<lparr>store := (store two_client_sys)(''task:W:1F:state'' := []),
                tasks := [\<lparr>t_queue = ''C.1'', t_id = 7, t_sync = True, t_value = r_request request_A\<rparr>],
                deleted := [(Some ''C.2'', [0, 7, 8])]\<rparr>)"
    unfolding with_FlowManager_def DestroyFlowStates_def l
    by (simp add: Flush_def MultiSet_def Delete_def DeleteSubject_def FlowManager_def subject_W1F
        two_client_sys_def sys0_def)
  show ?thesis
    unfolding Terminate_def s w
    by (simp add: SendReply_def Save_def record_event_def subject_W1F two_client_sys_def sys0_def flow_pb0_def)
qed

section \<open>Exceptions of state methods\<close>

lemma SendReply_Status_result:
  assumes "pb_request_state (flow_pb s) = Some rs" and "r_response_count rs < uint32_max"
    and "schedule_raises s = None" and "multiset_raises s = None"
  shows "SendReply (Status st) s =
     (Return (),
      s\<lparr>flow_pb := (flow_pb s)\<lparr>pb_request_state :=
                       Some (rs\<lparr>r_response_count := r_response_count rs + 1\<rparr>)\<rparr>,
         store := (store s)(subject (r_session_id rs) :=
                     store s (subject (r_session_id rs)) @
                     [(ResponseColumn (r_id rs) (r_response_count rs + 1),
                       StoredMessage (status_reply rs st s))]),
         tasks := tasks s @ [\<lparr>t_queue = worker_queue_of (r_session_id rs), t_id = next_task_id s,
                               t_sync = False, t_value = status_reply rs st s\<rparr>],
         next_task_id := next_task_id s + 1,
         deleted := deleted s @ [(None, [])],
         notified := notified s @ [(worker_queue_of (r_session_id rs), r_session_id rs)]\<rparr>)"
  using assms
  by (simp add: SendReply_def Let_def with_FlowManager_def Flush_def MultiSet_def Schedule_def
        Delete_def NotifyQueue_def FlowManager_def QueueResponse_def setdefault_append_def
        GrrMessage0_def status_reply_def)

lemma SendReply_Schedule_raises:
  assumes "pb_request_state (flow_pb s) = Some rs" and "r_response_count rs < uint32_max"
    and "schedule_raises s = Some e" and "e \<noteq> MoreDataException"
    and "multiset_raises s = None"
  shows "fst (SendReply (Status st) s) = Raise e \<and>
         pb_state (flow_pb (snd (SendReply (Status st) s))) = pb_state (flow_pb s)"
  using assms
  by (simp add: SendReply_def Let_def with_FlowManager_def Flush_def MultiSet_def Schedule_def
        Delete_def NotifyQueue_def FlowManager_def)

lemma Error_FlowContext_result:
  assumes "pb_state (flow_pb s) = RUNNING"
    and "schedule_raises s = None" and "multiset_raises s = None"
    and "\<forall>rs. pb_request_state (flow_pb s) = Some rs \<longrightarrow> r_response_count rs < uint32_max"
  shows "fst (Error FlowContext client backtrace s) = Return () \<and>
         pb_state (flow_pb (snd (Error FlowContext client backtrace s))) = ERROR \<and>
         (backtrace \<noteq> [] \<longrightarrow>
            pb_backtrace (flow_pb (snd (Error FlowContext client backtrace s))) = backtrace) \<and>
         journal (snd (Error FlowContext client backtrace s)) =
           journal s @
           [FlowSave (flow_pb (snd (Error FlowContext client backtrace s))),
            FlowNotify ''FlowStatus'' (client_id s)
              (''Flow ('' @ session_id s @ '') terminated due to error'')] \<and>
         (\<forall>rs. pb_request_state (flow_pb s) = Some rs \<longrightarrow>
            tasks (snd (Error FlowContext client backtrace s)) =
              tasks s @
              [\<lparr>t_queue = worker_queue_of (r_session_id rs), t_id = next_task_id s, t_sync = False,
                 t_value = status_reply rs
                   (GrrStatus0\<lparr>st_status := GENERIC_ERROR, st_error_message := backtrace\<rparr>) s\<rparr>] \<and>
            store (snd (Error FlowContext client backtrace s)) (subject (r_session_id rs)) =
              store s (subject (r_session_id rs)) @
              [(ResponseColumn (r_id rs) (r_response_count rs + 1),
                StoredMessage (status_reply rs
                   (GrrStatus0\<lparr>st_status := GENERIC_ERROR, st_error_message := backtrace\<rparr>) s))] \<and>
            notified (snd (Error FlowContext client backtrace s)) =
              notified s @ [(worker_queue_of (r_session_id rs), r_session_id rs)])"
proof (cases "pb_request_state (flow_pb s)")
  case None
  then show ?thesis using assms(1)
    by (simp add: Error_def SendReply_def Let_def Save_def record_event_def)
next
  case (Some rs)
  let ?s1 = "s\<lparr>flow_pb := (flow_pb s)\<lparr>pb_state := ERROR\<rparr>\<rparr>"
  have p: "pb_request_state (flow_pb ?s1) = Some rs" "r_response_count rs < uint32_max"
    "schedule_raises ?s1 = None" "multiset_raises ?s1 = None"
    using Some assms by simp_all
  have e: "GrrStatus0\<lparr>st_status := GENERIC_ERROR, st_error_message := []\<rparr> =
           GrrStatus0\<lparr>st_status := GENERIC_ERROR\<rparr>"
    by (simp add: GrrStatus0_def)
  show ?thesis
    using Some assms(1)
    by (simp add: Error_def Let_def SendReply_Status_result[OF p] Save_def record_event_def
        status_reply_def e)
qed

lemma Error_FlowContext_not_running:
  "pb_state (flow_pb s) \<noteq> RUNNING \<Longrightarrow> Error FlowContext client backtrace s = (Return (), s)"
  by (simp add: Error_def)

lemma Error_FlowContext_full_response_count:
  assumes "pb_state (flow_pb s) = RUNNING"
    and "pb_request_state (flow_pb s) = Some rs" and "uint32_max \<le> r_response_count rs"
  shows "Error FlowContext client backtrace s =
           (Raise (PyException ''ValueError''), s\<lparr>flow_pb := (flow_pb s)\<lparr>pb_state := ERROR\<rparr>\<rparr>)"
  using assms by (simp add: Error_def Let_def SendReply_def)

lemma Error_FlowContext_Schedule_raises:
  assumes "pb_state (flow_pb s) = RUNNING"
    and "pb_request_state (flow_pb s) = Some rs" and "r_response_count rs < uint32_max"
    and "schedule_raises s = Some e" and "e \<noteq> MoreDataException"
    and "multiset_raises s = None"
  shows "fst (Error FlowContext client backtrace s) = Raise e \<and>
         pb_state (flow_pb (snd (Error FlowContext client backtrace s))) = ERROR"
proof -
  let ?s1 = "s\<lparr>flow_pb := (flow_pb s)\<lparr>pb_state := ERROR\<rparr>\<rparr>"
  let ?reply0 = "GrrStatus0\<lparr>st_status := GENERIC_ERROR\<rparr>"
  let ?reply = "if backtrace \<noteq> [] then ?reply0\<lparr>st_error_message := backtrace\<rparr> else ?reply0"
  have p: "pb_request_state (flow_pb ?s1) = Some rs" "r_response_count rs < uint32_max"
    "schedule_raises ?s1 = Some e" "e \<noteq> MoreDataException" "multiset_raises ?s1 = None"
    using assms by simp_all
  obtain r s2 where r: "SendReply (Status ?reply) ?s1 = (r, s2)" by (cases "SendReply (Status ?reply) ?s1")
  from SendReply_Schedule_raises[OF p, of ?reply] r
  have "r = Raise e" and "pb_state (flow_pb s2) = ERROR" by simp_all
  with r assms(1) show ?thesis by (simp add: Error_def Let_def)
qed

text \<open>
  Claim C2, as amended.  An exception raised by a dispatched state method is caught in
  \<open>_ProcessSingleRequest\<close> and handed to \<open>Error\<close>.  In a \<open>HuntFlowContext\<close> it
  is only logged with the flow object (\<open>LogClientError\<close>): the flow record is not
  touched, and \<open>_ProcessSingleRequest\<close> returns.  In a \<open>FlowContext\<close> whose flow
  is no longer \<open>RUNNING\<close> nothing more happens, and \<open>_ProcessSingleRequest\<close>
  returns.  In a \<open>FlowContext\<close> whose flow is \<open>RUNNING\<close>, with the scheduler and
  the data store working and the response count of the parent request, if there is one,
  below the top of its \<open>uint32\<close> range, the exception becomes a flow error and
  \<open>_ProcessSingleRequest\<close> returns: the state is \<open>ERROR\<close>, the backtrace is
  recorded in the flow record, the parent request, if there is one, gets a \<open>STATUS\<close>
  reply with \<open>GENERIC_ERROR\<close> (stored, scheduled on the parent's worker queue, and
  notified), the flow is saved and the user is notified.  When the reply to the parent
  cannot be sent, because the response count of the parent request is at the top of its
  range or because the scheduler raises (anything but \<open>MoreDataException\<close>), that
  exception leaves \<open>_ProcessSingleRequest\<close>, the state being \<open>ERROR\<close> already.
\<close>

theorem state_method_exception:
  assumes "state_methods fl (r_next_state request) = Some meth"
    and "meth request responses (s\<lparr>current_state := r_next_state request\<rparr>) = (Raise e, s1)"
  shows "ProcessSingleRequest HuntFlowContext fl request responses s =
           (Return (),
            record_event
              (FlowLogClientError
                 (if r_client_id request \<noteq> [] then Some (r_client_id request) else client_id s)
                 (format_exc e)) s1) \<and>
         (pb_state (flow_pb s1) \<noteq> RUNNING \<longrightarrow>
            ProcessSingleRequest FlowContext fl request responses s = (Return (), s1)) \<and>
         (pb_state (flow_pb s1) = RUNNING \<and> schedule_raises s1 = None \<and>
          multiset_raises s1 = None \<and>
          (\<forall>rs. pb_request_state (flow_pb s1) = Some rs \<longrightarrow> r_response_count rs < uint32_max) \<longrightarrow>
            (let s' = snd (ProcessSingleRequest FlowContext fl request responses s)
             in fst (ProcessSingleRequest FlowContext fl request responses s) = Return () \<and>
                pb_state (flow_pb s') = ERROR \<and>
                (format_exc e \<noteq> [] \<longrightarrow> pb_backtrace (flow_pb s') = format_exc e) \<and>
                journal s' =
                  journal s1 @
                  [FlowSave (flow_pb s'),
                   FlowNotify ''FlowStatus'' (client_id s1)
                     (''Flow ('' @ session_id s1 @ '') terminated due to error'')] \<and>
                (\<forall>rs. pb_request_state (flow_pb s1) = Some rs \<longrightarrow>
                   tasks s' =
                     tasks s1 @
                     [\<lparr>t_queue = worker_queue_of (r_session_id rs), t_id = next_task_id s1,
                        t_sync = False,
                        t_value = status_reply rs
                          (GrrStatus0\<lparr>st_status := GENERIC_ERROR,
                             st_error_message := format_exc e\<rparr>) s1\<rparr>] \<and>
                   store s' (subject (r_session_id rs)) =
                     store s1 (subject (r_session_id rs)) @
                     [(ResponseColumn (r_id rs) (r_response_count rs + 1),
                       StoredMessage (status_reply rs
                          (GrrStatus0\<lparr>st_status := GENERIC_ERROR,
                             st_error_message := format_exc e\<rparr>) s1))] \<and>
                   notified s' =
                     notified s1 @ [(worker_queue_of (r_session_id rs), r_session_id rs)]))) \<and>
         (\<forall>rs. pb_state (flow_pb s1) = RUNNING \<and> pb_request_state (flow_pb s1) = Some rs \<and>
               uint32_max \<le> r_response_count rs \<longrightarrow>
            ProcessSingleRequest FlowContext fl request responses s =
              (Raise (PyException ''ValueError''),
               s1\<lparr>flow_pb := (flow_pb s1)\<lparr>pb_state := ERROR\<rparr>\<rparr>)) \<and>
         (\<forall>rs e'. pb_state (flow_pb s1) = RUNNING \<and> pb_request_state (flow_pb s1) = Some rs \<and>
               r_response_count rs < uint32_max \<and> schedule_raises s1 = Some e' \<and>
               e' \<noteq> MoreDataException \<and> multiset_raises s1 = None \<longrightarrow>
            fst (ProcessSingleRequest FlowContext fl request responses s) = Raise e' \<and>
            pb_state (flow_pb (snd (ProcessSingleRequest FlowContext fl request responses s))) =
              ERROR)"
proof -
  have h: "ProcessSingleRequest HuntFlowContext fl request responses s =
           (Return (),
            record_event
              (FlowLogClientError
                 (if r_client_id request \<noteq> [] then Some (r_client_id request) else client_id s)
                 (format_exc e)) s1)"
    using assms by (simp add: ProcessSingleRequest_def Let_def Error_def)
  have f: "ProcessSingleRequest FlowContext fl request responses s =
             Error FlowContext
               (if r_client_id request \<noteq> [] then Some (r_client_id request) else client_id s)
               (format_exc e) s1"
    using assms by (simp add: ProcessSingleRequest_def Let_def)
  have n: "pb_state (flow_pb s1) \<noteq> RUNNING \<longrightarrow>
            ProcessSingleRequest FlowContext fl request responses s = (Return (), s1)"
    unfolding f by (simp add: Error_FlowContext_not_running)
  have v: "\<forall>rs. pb_state (flow_pb s1) = RUNNING \<and> pb_request_state (flow_pb s1) = Some rs \<and>
               uint32_max \<le> r_response_count rs \<longrightarrow>
            ProcessSingleRequest FlowContext fl request responses s =
              (Raise (PyException ''ValueError''),
               s1\<lparr>flow_pb := (flow_pb s1)\<lparr>pb_state := ERROR\<rparr>\<rparr>)"
    unfolding f by (simp add: Error_FlowContext_full_response_count)
  have x: "\<forall>rs e'. pb_state (flow_pb s1) = RUNNING \<and> pb_request_state (flow_pb s1) = Some rs \<and>
               r_response_count rs < uint32_max \<and> schedule_raises s1 = Some e' \<and>
               e' \<noteq> MoreDataException \<and> multiset_raises s1 = None \<longrightarrow>
            fst (ProcessSingleRequest FlowContext fl request responses s) = Raise e' \<and>
            pb_state (flow_pb (snd (ProcessSingleRequest FlowContext fl request responses s))) =
              ERROR"
    unfolding f using Error_FlowContext_Schedule_raises[of s1] by blast
  have c: "pb_state (flow_pb s1) = RUNNING \<and> schedule_raises s1 = None \<and>
          multiset_raises s1 = None \<and>
          (\<forall>rs. pb_request_state (flow_pb s1) = Some rs \<longrightarrow> r_response_count rs < uint32_max) \<longrightarrow>
            (let s' = snd (ProcessSingleRequest FlowContext fl request responses s)
             in fst (ProcessSingleRequest FlowContext fl request responses s) = Return () \<and>
                pb_state (flow_pb s') = ERROR \<and>
                (format_exc e \<noteq> [] \<longrightarrow> pb_backtrace (flow_pb s') = format_exc e) \<and>
                journal s' =
                  journal s1 @
                  [FlowSave (flow_pb s'),
                   FlowNotify ''FlowStatus'' (client_id s1)
                     (''Flow ('' @ session_id s1 @ '') terminated due to error'')] \<and>
                (\<forall>rs. pb_request_state (flow_pb s1) = Some rs \<longrightarrow>
                   tasks s' =
                     tasks s1 @
                     [\<lparr>t_queue = worker_queue_of (r_session_id rs), t_id = next_task_id s1,
                        t_sync = False,
                        t_value = status_reply rs
                          (GrrStatus0\<lparr>st_status := GENERIC_ERROR,
                             st_error_message := format_exc e\<rparr>) s1\<rparr>] \<and>
                   store s' (subject (r_session_id rs)) =
                     store s1 (subject (r_session_id rs)) @
                     [(ResponseColumn (r_id rs) (r_response_count rs + 1),
                       StoredMessage (status_reply rs
                          (GrrStatus0\<lparr>st_status := GENERIC_ERROR,
                             st_error_message := format_exc e\<rparr>) s1))] \<and>
                   notified s' =
                     notified s1 @ [(worker_queue_of (r_session_id rs), r_session_id rs)]))"
    unfolding f Let_def
    using Error_FlowContext_result[of s1] by blast
  from h n c v x show ?thesis by (intro conjI)
qed

theorem state_method_exception_witness:
  "fst (ProcessSingleRequest FlowContext failing_flow request_A [] child_sys) = Return () \<and>
   pb_state (flow_pb (snd (ProcessSingleRequest FlowContext failing_flow request_A [] child_sys))) =
     ERROR \<and>
   pb_backtrace (flow_pb (snd (ProcessSingleRequest FlowContext failing_flow request_A [] child_sys))) =
     ''boom'' \<and>
   notified (snd (ProcessSingleRequest FlowContext failing_flow request_A [] child_sys)) =
     [(''W'', ''W:AA'')]"
proof -
  let ?m = "\<lambda>(request :: request_state) (responses :: grr_message list) (s :: sys).
              (Raise (PyException ''boom'') :: unit res, s)"
  let ?s = "child_sys\<lparr>current_state := r_next_state request_A\<rparr>"
  have h1: "state_methods failing_flow (r_next_state request_A) = Some ?m"
    by (simp add: failing_flow_def request_A_def RequestState0_def)
  have h2: "?m request_A [] ?s = (Raise (PyException ''boom''), ?s)"
    by simp
  have h3: "pb_state (flow_pb ?s) = RUNNING" "schedule_raises ?s = None" "multiset_raises ?s = None"
    "pb_request_state (flow_pb ?s) = Some parent_request"
    by (simp_all add: child_sys_def sys0_def flow_pb0_def)
  have h4: "r_response_count parent_request < uint32_max"
    by (simp add: parent_request_def uint32_max_def)
  have q: "worker_queue_of (r_session_id parent_request) = ''W''"
    "r_session_id parent_request = ''W:AA''"
    by (simp_all add: worker_queue_of_def parent_request_def)
  have n: "notified ?s = []" by (simp add: child_sys_def sys0_def)
  have t: "let s' = snd (ProcessSingleRequest FlowContext failing_flow request_A [] child_sys)
           in fst (ProcessSingleRequest FlowContext failing_flow request_A [] child_sys) = Return () \<and>
              pb_state (flow_pb s') = ERROR \<and>
              (format_exc (PyException ''boom'') \<noteq> [] \<longrightarrow>
                 pb_backtrace (flow_pb s') = format_exc (PyException ''boom'')) \<and>
              journal s' =
                journal ?s @
                [FlowSave (flow_pb s'),
                 FlowNotify ''FlowStatus'' (client_id ?s)
                   (''Flow ('' @ session_id ?s @ '') terminated due to error'')] \<and>
              (\<forall>rs. pb_request_state (flow_pb ?s) = Some rs \<longrightarrow>
                 tasks s' =
                   tasks ?s @
                   [\<lparr>t_queue = worker_queue_of (r_session_id rs), t_id = next_task_id ?s,
                      t_sync = False,
                      t_value = status_reply rs
                        (GrrStatus0\<lparr>st_status := GENERIC_ERROR,
                           st_error_message := format_exc (PyException ''boom'')\<rparr>) ?s\<rparr>] \<and>
                 store s' (subject (r_session_id rs)) =
                   store ?s (subject (r_session_id rs)) @
                   [(ResponseColumn (r_id rs) (r_response_count rs + 1),
                     StoredMessage (status_reply rs
                        (GrrStatus0\<lparr>st_status := GENERIC_ERROR,
                           st_error_message := format_exc (PyException ''boom'')\<rparr>) ?s))] \<and>
                 notified s' =
                   notified ?s @ [(worker_queue_of (r_session_id rs), r_session_id rs)])"
    using state_method_exception [OF h1 h2, THEN conjunct2, THEN conjunct2, THEN conjunct1] h3 h4
    by simp
  show ?thesis
    using t h3 q n by (simp add: Let_def)
qed

text \<open>
  Claim C2 as stated fails in a hunt: the state method raises, and the flow stays
  \<open>RUNNING\<close> with no backtrace in its record.
\<close>

theorem hunt_state_method_exception_counterexample:
  "fst (ProcessSingleRequest HuntFlowContext failing_flow request_A [] sys0) = Return () \<and>
   pb_state (flow_pb (snd (ProcessSingleRequest HuntFlowContext failing_flow request_A [] sys0))) =
     RUNNING \<and>
   pb_backtrace (flow_pb (snd (ProcessSingleRequest HuntFlowContext failing_flow request_A [] sys0))) =
     [] \<and>
   journal (snd (ProcessSingleRequest HuntFlowContext failing_flow request_A [] sys0)) =
     [FlowLogClientError (Some ''C.1'') ''boom'']"
  by (simp add: ProcessSingleRequest_def Let_def Error_def failing_flow_def request_A_def
      RequestState0_def sys0_def flow_pb0_def record_event_def)

section \<open>The main loop of ProcessCompletedRequests\<close>

lemma Flush_frame:
  "Flush fm s = (r, fm', s') \<Longrightarrow>
     flow_pb s' = flow_pb s \<and> new_request_states s' = new_request_states s \<and>
     next_processed_request s' = next_processed_request s \<and>
     outstanding_requests s' = outstanding_requests s \<and>
     next_outbound_id s' = next_outbound_id s \<and> current_state s' = current_state s \<and>
     session_id s' = session_id s \<and> queue_name s' = queue_name s"
  by (auto simp: Flush_def MultiSet_def Delete_def split: option.splits if_splits)

lemma Schedule_cursor:
  "next_processed_request (snd (Schedule new_tasks sync s)) = next_processed_request s"
  by (simp add: Schedule_def Let_def split: option.splits)

lemma with_FlowManager_cursor:
  assumes "\<And>fm. next_processed_request (snd (snd (body fm s))) = next_processed_request s"
  shows "next_processed_request (snd (with_FlowManager sid body s)) = next_processed_request s"
proof -
  obtain r fm s1 where b: "body (FlowManager sid) s = (r, fm, s1)" by (metis prod_cases3)
  obtain fr fm' s2 where f: "Flush fm s1 = (fr, fm', s2)" by (metis prod_cases3)
  from assms[of "FlowManager sid"] b have "next_processed_request s1 = next_processed_request s"
    by simp
  with Flush_frame[OF f] have "next_processed_request s2 = next_processed_request s" by simp
  then show ?thesis by (simp add: with_FlowManager_def b f split: res.splits)
qed

lemma SendReply_cursor:
  "next_processed_request (snd (SendReply response_proto s)) = next_processed_request s"
proof (cases "pb_request_state (flow_pb s)")
  case None
  then show ?thesis by (simp add: SendReply_def)
next
  case (Some rs)
  show ?thesis
  proof (cases "uint32_max < r_response_count rs + 1")
    case True
    with Some show ?thesis by (simp add: SendReply_def)
  next
    case False
    with Some show ?thesis
      apply (simp add: SendReply_def Let_def NotifyQueue_def case_prod_unfold)
      apply (rule trans[OF with_FlowManager_cursor])
       apply (auto simp: Let_def Schedule_def split: option.splits)
      done
  qed
qed

lemma Error_cursor:
  "next_processed_request (snd (Error cls client backtrace s)) = next_processed_request s"
proof (cases cls)
  case HuntFlowContext
  then show ?thesis by (simp add: Error_def record_event_def)
next
  case FlowContext
  let ?s1 = "s\<lparr>flow_pb := (flow_pb s)\<lparr>pb_state := ERROR\<rparr>\<rparr>"
  have "next_processed_request (snd (SendReply p ?s1)) = next_processed_request s" for p
    by (simp add: SendReply_cursor)
  then have "SendReply p ?s1 = (r, s2) \<Longrightarrow> next_processed_request s2 = next_processed_request s"
    for p r s2
    by (metis snd_conv)
  then show ?thesis
    using FlowContext
    by (auto simp: Error_def Let_def Save_def record_event_def split: prod.splits res.splits)
qed

lemma ProcessSingleRequest_cursor:
  assumes "methods_keep_cursor fl"
  shows "next_processed_request (snd (ProcessSingleRequest cls fl request responses s)) =
           next_processed_request s"
proof (cases "state_methods fl (r_next_state request)")
  case None
  then show ?thesis by (simp add: ProcessSingleRequest_def Let_def Error_cursor)
next
  case (Some meth)
  let ?s0 = "s\<lparr>current_state := r_next_state request\<rparr>"
  obtain r s1 where m: "meth request responses ?s0 = (r, s1)" by (metis surj_pair)
  from assms Some m
  have "next_processed_request s1 = next_processed_request ?s0"
    unfolding methods_keep_cursor_def by (metis snd_conv)
  then have "next_processed_request s1 = next_processed_request s" by simp
  with Some m show ?thesis
    by (cases r) (simp_all add: ProcessSingleRequest_def Let_def Error_cursor)
qed

lemma process_request_step:
  assumes "process_requests_in_order cls"
    and "methods_keep_cursor fl"
  shows "case process_request cls fl (request, responses) (ds, fm, s) of
           Continue (ds', fm', s') \<Rightarrow>
             (ds' = ds \<and> next_processed_request s' = next_processed_request s) \<or>
             (ds' = ds @ [(request, responses)] \<and>
              r_id request = next_processed_request s \<and>
              next_processed_request s' = next_processed_request s + 1)
         | Break (ds', fm', s') \<Rightarrow>
             ds' = ds \<and> next_processed_request s' = next_processed_request s
         | Throw e (ds', fm', s') \<Rightarrow>
             ds' = ds @ [(request, responses)] \<and> r_id request = next_processed_request s"
proof -
  obtain r s1 where p: "Process cls fl request responses s = (r, s1)" by (metis surj_pair)
  have c: "next_processed_request s1 = next_processed_request s"
    using ProcessSingleRequest_cursor[OF assms(2), of cls request responses s] p
    by (simp add: Process_def)
  show ?thesis
    using assms(1) c
    by (cases r) (auto simp: process_request_def Let_def p)
qed

lemma upt_step: "x # [Suc x ..< Suc x + n] = [x ..< x + Suc n]"
proof -
  have "x < x + Suc n" by simp
  then have "[x ..< x + Suc n] = x # [Suc x ..< x + Suc n]" by (rule upt_conv_Cons)
  then show ?thesis by (simp del: upt_Suc)
qed

lemma loop_dispatch_order:
  assumes "process_requests_in_order cls"
    and "methods_keep_cursor fl"
  shows "for_loop (process_request cls fl) items (ds, fm, s) = (r, ds', fm', s') \<Longrightarrow>
         \<exists>new. ds' = ds @ new \<and>
           map (r_id \<circ> fst) new =
             [next_processed_request s ..< next_processed_request s + length new] \<and>
           (r = Return () \<longrightarrow> next_processed_request s' = next_processed_request s + length new)"
proof (induction items arbitrary: ds fm s)
  case Nil
  then show ?case by simp
next
  case (Cons item items)
  show ?case
  proof (cases item)
    case (GenRaise e)
    with Cons.prems show ?thesis by simp
  next
    case (Yield x)
    obtain request responses where x: "x = (request, responses)" by (cases x)
    note st = process_request_step[OF assms, where request=request and responses=responses and ds=ds and fm=fm and s=s]
    show ?thesis
    proof (cases "process_request cls fl (request, responses) (ds, fm, s)")
      case (Continue a)
      obtain d1 f1 s1 where a: "a = (d1, f1, s1)" by (cases a)
      from Cons.prems Yield x Continue a
      have l: "for_loop (process_request cls fl) items (d1, f1, s1) = (r, ds', fm', s')" by simp
      from Cons.IH[OF l] obtain new where n: "ds' = d1 @ new"
        "map (r_id \<circ> fst) new = [next_processed_request s1 ..< next_processed_request s1 + length new]"
        "r = Return () \<longrightarrow> next_processed_request s' = next_processed_request s1 + length new"
        by blast
      from st Continue a consider
        (same) "d1 = ds" "next_processed_request s1 = next_processed_request s"
        | (disp) "d1 = ds @ [(request, responses)]" "r_id request = next_processed_request s"
          "next_processed_request s1 = next_processed_request s + 1"
        by auto
      then show ?thesis
      proof cases
        case same
        have "ds' = ds @ new" using n(1) same by simp
        moreover have "map (r_id \<circ> fst) new =
            [next_processed_request s ..< next_processed_request s + length new]"
          using n(2) same(2) by simp
        moreover have "r = Return () \<longrightarrow>
            next_processed_request s' = next_processed_request s + length new"
          using n(3) same(2) by simp
        ultimately show ?thesis by blast
      next
        case disp
        have "map (r_id \<circ> fst) ((request, responses) # new) =
                [next_processed_request s ..< next_processed_request s + length ((request, responses) # new)]"
        proof -
          have "map (r_id \<circ> fst) ((request, responses) # new) =
                  next_processed_request s #
                  [Suc (next_processed_request s) ..< Suc (next_processed_request s) + length new]"
            using n(2) disp(2,3) by (simp del: upt_Suc)
          then show ?thesis by (simp only: upt_step length_Cons)
        qed
        moreover have "ds' = ds @ (request, responses) # new" using n(1) disp by simp
        moreover have "r = Return () \<longrightarrow>
                next_processed_request s' = next_processed_request s + length ((request, responses) # new)"
          using n(3) disp by simp
        ultimately show ?thesis by blast
      qed
    next
      case (Break a)
      obtain d1 f1 s1 where a: "a = (d1, f1, s1)" by (cases a)
      from Cons.prems Yield x Break a st show ?thesis by auto
    next
      case (Throw e a)
      obtain d1 f1 s1 where a: "a = (d1, f1, s1)" by (cases a)
      from Cons.prems Yield x Throw a st
      have "ds' = ds @ [(request, responses)]" "r_id request = next_processed_request s"
        "r = Raise e" by auto
      then have "ds' = ds @ [(request, responses)] \<and>
           map (r_id \<circ> fst) [(request, responses)] =
             [next_processed_request s ..< next_processed_request s + length [(request, responses)]] \<and>
           (r = Return () \<longrightarrow> next_processed_request s' =
              next_processed_request s + length [(request, responses)])"
        by simp
      then show ?thesis by blast
    qed
  qed
qed

lemma ProcessCompletedRequests_dispatched:
  "snd (fst (ProcessCompletedRequests cls fl s)) =
     (if IsRunning s
      then fst (snd (for_loop (process_request cls fl) (Fetch (FlowManager (session_id s)) s)
                       ([], FlowManager (session_id s), s)))
      else [])"
  by (auto simp: ProcessCompletedRequests_def Let_def split: prod.splits res.splits)

text \<open>
  Claim C1, as amended.  In a context that processes its requests in order, and whose
  state methods leave the cursor alone: the requests that \<open>ProcessCompletedRequests\<close>
  hands to \<open>_Process\<close> have the consecutive ids \<open>next_processed_request\<close>,
  \<open>next_processed_request + 1\<close>, ..., and the main loop advances the cursor by exactly
  one for each of them; a fetched request that has responses and an id beyond the cursor
  is not dispatched and ends the loop; a fetched request that has responses and a
  non-zero id before the cursor is deleted with its responses, not dispatched, and the
  loop goes on.
\<close>

theorem ordered_dispatch:
  assumes "process_requests_in_order cls" and "methods_keep_cursor fl"
  shows "map (r_id \<circ> fst) (snd (fst (ProcessCompletedRequests cls fl s))) =
           [next_processed_request s ..<
            next_processed_request s + length (snd (fst (ProcessCompletedRequests cls fl s)))] \<and>
         (for_loop (process_request cls fl) items (ds, fm, s) = (r, ds', fm', s') \<longrightarrow>
            (\<exists>new. ds' = ds @ new \<and>
               map (r_id \<circ> fst) new =
                 [next_processed_request s ..< next_processed_request s + length new] \<and>
               (r = Return () \<longrightarrow>
                  next_processed_request s' = next_processed_request s + length new))) \<and>
         (responses \<noteq> [] \<and> next_processed_request s < r_id request \<longrightarrow>
            for_loop (process_request cls fl) (Yield (request, responses) # rest) (ds, fm, s) =
              (Return (), ds, fm, s)) \<and>
         (responses \<noteq> [] \<and> r_id request \<noteq> 0 \<and> r_id request < next_processed_request s \<longrightarrow>
            for_loop (process_request cls fl) (Yield (request, responses) # rest) (ds, fm, s) =
              for_loop (process_request cls fl) rest
                (ds, DeleteFlowRequestStates (Some request) responses fm, s) \<and>
            set (RequestColumn (r_id request) #
                 map (\<lambda>response. ResponseColumn (m_request_id response) (m_response_id response))
                   responses)
              \<subseteq> set (to_delete (DeleteFlowRequestStates (Some request) responses fm)))"
proof -
  have a2: "map (r_id \<circ> fst) (snd (fst (ProcessCompletedRequests cls fl s))) =
           [next_processed_request s ..<
            next_processed_request s + length (snd (fst (ProcessCompletedRequests cls fl s)))]"
  proof (cases "IsRunning s")
    case False
    then show ?thesis by (simp add: ProcessCompletedRequests_dispatched)
  next
    case True
    obtain r0 d0 f0 s0 where l: "for_loop (process_request cls fl) (Fetch (FlowManager (session_id s)) s)
                       ([], FlowManager (session_id s), s) = (r0, d0, f0, s0)"
      by (metis prod_cases4)
    from loop_dispatch_order[OF assms l] have
      "map (r_id \<circ> fst) d0 = [next_processed_request s ..< next_processed_request s + length d0]"
      by auto
    then show ?thesis using True by (simp add: ProcessCompletedRequests_dispatched l)
  qed
  have a1: "for_loop (process_request cls fl) items (ds, fm, s) = (r, ds', fm', s') \<longrightarrow>
            (\<exists>new. ds' = ds @ new \<and>
               map (r_id \<circ> fst) new =
                 [next_processed_request s ..< next_processed_request s + length new] \<and>
               (r = Return () \<longrightarrow>
                  next_processed_request s' = next_processed_request s + length new))"
    using loop_dispatch_order[OF assms] by blast
  have b: "responses \<noteq> [] \<and> next_processed_request s < r_id request \<longrightarrow>
            for_loop (process_request cls fl) (Yield (request, responses) # rest) (ds, fm, s) =
              (Return (), ds, fm, s)"
    using assms(1) by (simp add: process_request_def)
  have c: "responses \<noteq> [] \<and> r_id request \<noteq> 0 \<and> r_id request < next_processed_request s \<longrightarrow>
            for_loop (process_request cls fl) (Yield (request, responses) # rest) (ds, fm, s) =
              for_loop (process_request cls fl) rest
                (ds, DeleteFlowRequestStates (Some request) responses fm, s) \<and>
            set (RequestColumn (r_id request) #
                 map (\<lambda>response. ResponseColumn (m_request_id response) (m_response_id response))
                   responses)
              \<subseteq> set (to_delete (DeleteFlowRequestStates (Some request) responses fm))"
    using assms(1) by (auto simp: process_request_def DeleteFlowRequestStates_def Let_def)
  from a2 a1 b c show ?thesis by blast
qed

lemma done_flow_keeps_cursor: "methods_keep_cursor done_flow"
  by (auto simp: methods_keep_cursor_def done_flow_def split: if_splits)

lemma Fetch_complete_sys:
  "Fetch (FlowManager ''W:1F'') complete_sys =
     [Yield (RequestState0, []), Yield (request_A, [response_1, status_2])]"
  by (simp add: Fetch_def FlowManager_def subject_W1F complete_sys_def sys0_def ResolveRegex_def
      FetchRequestsAndResponses_def request_limit_def response_limit_def
      request_predicate_def response_predicate_def FLOW_REQUEST_TEMPLATE_def
      FLOW_RESPONSE_TEMPLATE_def hex8_small
      set_request_state_def add_response_def request_A_def RequestState0_def
      response_1_def status_2_def GrrMessage0_def)

lemma dispatched_complete_sys:
  "snd (fst (ProcessCompletedRequests FlowContext done_flow complete_sys)) =
     [(request_A, [response_1, status_2])]"
proof -
  have s: "session_id complete_sys = ''W:1F''" "IsRunning complete_sys"
    "next_processed_request complete_sys = 1"
    by (simp_all add: complete_sys_def sys0_def IsRunning_def flow_pb0_def)
  have r: "r_id request_A = 1" "r_next_state request_A = ''Done''"
    by (simp_all add: request_A_def RequestState0_def)
  have m: "m_type status_2 = STATUS" "m_response_id status_2 = 2"
    by (simp_all add: status_2_def GrrMessage0_def)
  show ?thesis
    unfolding ProcessCompletedRequests_dispatched s Fetch_complete_sys
    using s(2,3) r m
    by (simp add: process_request_def Process_def ProcessSingleRequest_def done_flow_def
        IsRunning_def Let_def)
qed

theorem ordered_dispatch_witness:
  "process_requests_in_order FlowContext \<and>
   snd (fst (ProcessCompletedRequests FlowContext done_flow complete_sys)) =
     [(request_A, [response_1, status_2])] \<and>
   map (r_id \<circ> fst) (snd (fst (ProcessCompletedRequests FlowContext done_flow complete_sys))) =
     [next_processed_request complete_sys ..<
      next_processed_request complete_sys +
      length (snd (fst (ProcessCompletedRequests FlowContext done_flow complete_sys)))]"
proof -
  have o: "process_requests_in_order FlowContext" by simp
  have a: "map (r_id \<circ> fst) (snd (fst (ProcessCompletedRequests FlowContext done_flow complete_sys))) =
     [next_processed_request complete_sys ..<
      next_processed_request complete_sys +
      length (snd (fst (ProcessCompletedRequests FlowContext done_flow complete_sys)))]"
    by (rule ordered_dispatch [OF o done_flow_keeps_cursor, THEN conjunct1])
  show ?thesis by (intro conjI o dispatched_complete_sys a)
qed

text \<open>
  Claim C1 as stated fails for a request without responses: with the cursor at 3, the
  stored requests 1 and 2 (no responses yet) are skipped, not deleted.
\<close>

theorem stale_request_without_responses_counterexample:
  "process_requests_in_order FlowContext \<and>
   r_id request_A < next_processed_request stale_sys \<and>
   store stale_sys (subject ''W:1F'') =
     [(RequestColumn 1, StoredRequest request_A), (RequestColumn 2, StoredRequest request_B)] \<and>
   fst (ProcessCompletedRequests FlowContext failing_flow stale_sys) = (Return (), []) \<and>
   store (snd (ProcessCompletedRequests FlowContext failing_flow stale_sys)) (subject ''W:1F'') =
     [(RequestColumn 1, StoredRequest request_A), (RequestColumn 2, StoredRequest request_B)]"
proof -
  have s: "session_id stale_sys = ''W:1F''" "IsRunning stale_sys"
    "next_processed_request stale_sys = 3" "outstanding_requests stale_sys = 1"
    "multiset_raises stale_sys = None"
    "store stale_sys ''task:W:1F:state'' =
       [(RequestColumn 1, StoredRequest request_A), (RequestColumn 2, StoredRequest request_B)]"
    by (simp_all add: stale_sys_def two_client_sys_def sys0_def IsRunning_def flow_pb0_def)
  have r: "r_id request_A = 1" "r_id request_B = 2"
    by (simp_all add: request_A_def request_B_def RequestState0_def)
  have f: "Fetch (FlowManager ''W:1F'') stale_sys =
     [Yield (RequestState0, []), Yield (request_A, []), Yield (request_B, [])]"
    by (simp add: Fetch_def FlowManager_def subject_W1F stale_sys_def two_client_sys_def sys0_def
      ResolveRegex_def FetchRequestsAndResponses_def request_limit_def response_limit_def
      request_predicate_def response_predicate_def FLOW_REQUEST_TEMPLATE_def
      FLOW_RESPONSE_TEMPLATE_def hex8_small
      set_request_state_def request_A_def request_B_def RequestState0_def)
  have l: "for_loop (process_request FlowContext failing_flow)
             (Fetch (FlowManager (session_id stale_sys)) stale_sys)
             ([], FlowManager (session_id stale_sys), stale_sys) =
           (Return (), [], FlowManager ''W:1F'', stale_sys)"
    by (simp add: s(1) f process_request_def)
  have e: "run_End FlowContext failing_flow stale_sys = (Return (), stale_sys)"
    by (simp add: run_End_def s)
  have fl: "Flush (FlowManager ''W:1F'') stale_sys =
              (Return (), FlowManager ''W:1F'',
               stale_sys\<lparr>store := (store stale_sys)(''task:W:1F:state'' :=
                   [(RequestColumn 1, StoredRequest request_A),
                    (RequestColumn 2, StoredRequest request_B)]),
                 tasks := tasks stale_sys, deleted := deleted stale_sys @ [(None, [])]\<rparr>)"
    by (simp add: Flush_def MultiSet_def Delete_def FlowManager_def subject_W1F s(5,6))
  have p: "ProcessCompletedRequests FlowContext failing_flow stale_sys =
             ((Return (), []),
              stale_sys\<lparr>store := (store stale_sys)(''task:W:1F:state'' :=
                   [(RequestColumn 1, StoredRequest request_A),
                    (RequestColumn 2, StoredRequest request_B)]),
                 tasks := tasks stale_sys, deleted := deleted stale_sys @ [(None, [])]\<rparr>)"
    using s(2) by (simp add: ProcessCompletedRequests_def l e s(4) fl)
  show ?thesis
    unfolding p
    by (simp add: s r subject_W1F)
qed


lemma process_request_skip:
  "r_id request = 0 \<or> responses = [] \<Longrightarrow>
   process_request cls fl (request, responses) a = Continue a"
  by (cases a) (auto simp: process_request_def)

lemma for_loop_skip:
  "\<forall>(request, responses) \<in> set skipped. r_id request = 0 \<or> responses = [] \<Longrightarrow>
   for_loop (process_request cls fl) (map Yield skipped @ items) a =
   for_loop (process_request cls fl) items a"
proof (induction skipped)
  case Nil
  then show ?case by simp
next
  case (Cons x skipped)
  obtain request responses where x: "x = (request, responses)" by (cases x)
  with Cons.prems have "r_id request = 0 \<or> responses = []" by simp
  then have "process_request cls fl x a = Continue a"
    unfolding x by (rule process_request_skip)
  with Cons show ?case by simp
qed

lemma process_request_gap:
  assumes "r_id request \<noteq> 0" and "responses \<noteq> []"
    and "process_requests_in_order cls \<longrightarrow> r_id request = next_processed_request s"
    and "m_type (last responses) = STATUS"
    and "length responses \<noteq> m_response_id (last responses)"
  shows "process_request cls fl (request, responses) (done, fm, s) =
           Break (done, DeleteFlowRequestStates (Some request) responses fm,
                  retransmitted request s)"
  using assms by (auto simp: process_request_def retransmitted_def Let_def)

lemma Flush_returns:
  "multiset_raises s = None \<or> multiset_raises s = Some DataStoreError \<Longrightarrow>
   fst (Flush fm s) = Return ()"
  by (auto simp: Flush_def MultiSet_def)

lemma retransmitted_frame:
  "flow_pb (retransmitted request s) = flow_pb s \<and>
   outstanding_requests (retransmitted request s) = outstanding_requests s \<and>
   next_processed_request (retransmitted request s) = next_processed_request s \<and>
   multiset_raises (retransmitted request s) = multiset_raises s \<and>
   new_request_states (retransmitted request s) =
     (if r_transmission_count request < 5
      then new_request_states s @ [request\<lparr>r_transmission_count := r_transmission_count request + 1\<rparr>]
      else new_request_states s)"
  by (simp add: retransmitted_def)

text \<open>
  Claim C3.  A claimed request (non-zero id, in turn if the context is ordered, last
  response a \<open>STATUS\<close>) whose responses have a gap is deleted from the store and ends
  the loop without being dispatched; it goes back to the pending buffer with its
  transmission count raised by one if that count is below 5, and is dropped with the
  count unchanged otherwise.  When this is what the loop meets first and the flow has
  outstanding requests, \<open>ProcessCompletedRequests\<close> returns with nothing dispatched
  and the flow still \<open>RUNNING\<close>.
\<close>

theorem gap_retransmits_or_abandons:
  assumes "r_id request \<noteq> 0" and "responses \<noteq> []"
    and "process_requests_in_order cls \<longrightarrow> r_id request = next_processed_request s"
    and "m_type (last responses) = STATUS"
    and "length responses \<noteq> m_response_id (last responses)"
  shows "for_loop (process_request cls fl) (Yield (request, responses) # rest) (done, fm, s) =
           (Return (), done, DeleteFlowRequestStates (Some request) responses fm,
            retransmitted request s) \<and>
         (IsRunning s \<and> outstanding_requests s \<noteq> 0 \<and>
          (multiset_raises s = None \<or> multiset_raises s = Some DataStoreError) \<and>
          Fetch (FlowManager (session_id s)) s =
            map Yield skipped @ Yield (request, responses) # rest \<and>
          (\<forall>(request, responses) \<in> set skipped. r_id request = 0 \<or> responses = []) \<longrightarrow>
            fst (ProcessCompletedRequests cls fl s) = (Return (), []) \<and>
            pb_state (flow_pb (snd (ProcessCompletedRequests cls fl s))) = RUNNING \<and>
            new_request_states (snd (ProcessCompletedRequests cls fl s)) =
              new_request_states (retransmitted request s) \<and>
            next_processed_request (snd (ProcessCompletedRequests cls fl s)) =
              next_processed_request s \<and>
            outstanding_requests (snd (ProcessCompletedRequests cls fl s)) =
              outstanding_requests s)"
proof (rule conjI, goal_cases)
  case 1
  show "for_loop (process_request cls fl) (Yield (request, responses) # rest) (done, fm, s) =
           (Return (), done, DeleteFlowRequestStates (Some request) responses fm,
            retransmitted request s)"
    by (simp add: process_request_gap[OF assms])
next
  case 2
  show ?case
  proof (rule impI)
  assume a: "IsRunning s \<and> outstanding_requests s \<noteq> 0 \<and>
          (multiset_raises s = None \<or> multiset_raises s = Some DataStoreError) \<and>
          Fetch (FlowManager (session_id s)) s =
            map Yield skipped @ Yield (request, responses) # rest \<and>
          (\<forall>(request, responses) \<in> set skipped. r_id request = 0 \<or> responses = [])"
  let ?fm = "DeleteFlowRequestStates (Some request) responses (FlowManager (session_id s))"
  let ?s1 = "retransmitted request s"
  have loop: "for_loop (process_request cls fl) (Fetch (FlowManager (session_id s)) s)
                ([], FlowManager (session_id s), s) = (Return (), [], ?fm, ?s1)"
    using a for_loop_skip[of skipped cls fl "Yield (request, responses) # rest"
        "([], FlowManager (session_id s), s)"]
    by (simp add: process_request_gap[OF assms])
  have o: "outstanding_requests ?s1 \<noteq> 0" using a by (simp add: retransmitted_frame)
  have e: "run_End cls fl ?s1 = (Return (), ?s1)" using o by (simp add: run_End_def)
  obtain r fm' s2 where f: "Flush ?fm ?s1 = (r, fm', s2)" by (metis prod_cases3)
  have r: "r = Return ()"
    using Flush_returns[of ?s1 ?fm] a f by (simp add: retransmitted_frame)
  have run: "IsRunning s" using a by simp
  have p: "ProcessCompletedRequests cls fl s = ((Return (), []), s2)"
    using run by (simp add: ProcessCompletedRequests_def loop e o f r)
  from Flush_frame[OF f] a
  show "fst (ProcessCompletedRequests cls fl s) = (Return (), []) \<and>
            pb_state (flow_pb (snd (ProcessCompletedRequests cls fl s))) = RUNNING \<and>
            new_request_states (snd (ProcessCompletedRequests cls fl s)) =
              new_request_states (retransmitted request s) \<and>
            next_processed_request (snd (ProcessCompletedRequests cls fl s)) =
              next_processed_request s \<and>
            outstanding_requests (snd (ProcessCompletedRequests cls fl s)) =
              outstanding_requests s"
    unfolding p by (simp add: retransmitted_frame IsRunning_def)
  qed
qed

lemma Fetch_gap_sys:
  "Fetch (FlowManager (session_id gap_sys)) gap_sys =
     map Yield [(RequestState0, [])] @ Yield (request_A, [response_1, status_3]) # []"
  by (simp add: Fetch_def FlowManager_def subject_W1F gap_sys_def sys0_def ResolveRegex_def
      FetchRequestsAndResponses_def request_limit_def response_limit_def
      request_predicate_def response_predicate_def FLOW_REQUEST_TEMPLATE_def
      FLOW_RESPONSE_TEMPLATE_def hex8_small
      set_request_state_def add_response_def request_A_def RequestState0_def
      response_1_def status_3_def GrrMessage0_def)

theorem gap_retransmits_or_abandons_witness:
  "r_id request_A \<noteq> 0 \<and> [response_1, status_3] \<noteq> [] \<and>
   r_id request_A = next_processed_request gap_sys \<and>
   m_type (last [response_1, status_3]) = STATUS \<and>
   length [response_1, status_3] \<noteq> m_response_id (last [response_1, status_3]) \<and>
   IsRunning gap_sys \<and> outstanding_requests gap_sys \<noteq> 0 \<and>
   fst (ProcessCompletedRequests FlowContext failing_flow gap_sys) = (Return (), []) \<and>
   pb_state (flow_pb (snd (ProcessCompletedRequests FlowContext failing_flow gap_sys))) = RUNNING \<and>
   map r_transmission_count
     (new_request_states (snd (ProcessCompletedRequests FlowContext failing_flow gap_sys))) = [1]"
proof -
  have h: "r_id request_A \<noteq> 0" "[response_1, status_3] \<noteq> []"
    "process_requests_in_order FlowContext \<longrightarrow> r_id request_A = next_processed_request gap_sys"
    "m_type (last [response_1, status_3]) = STATUS"
    "length [response_1, status_3] \<noteq> m_response_id (last [response_1, status_3])"
    by (simp_all add: request_A_def RequestState0_def gap_sys_def sys0_def status_3_def GrrMessage0_def)
  have g: "IsRunning gap_sys" "outstanding_requests gap_sys \<noteq> 0" "multiset_raises gap_sys = None"
    "new_request_states gap_sys = []" "r_transmission_count request_A = 0"
    by (simp_all add: IsRunning_def gap_sys_def sys0_def flow_pb0_def request_A_def RequestState0_def)
  show ?thesis
    using gap_retransmits_or_abandons [OF h, of failing_flow "[]" "[]" "FlowManager ''W:1F''"
        "[(RequestState0, [])]"] h g Fetch_gap_sys
    by (simp add: retransmitted_def RequestState0_def)
qed


section \<open>FlushMessages\<close>

lemma set_ts_ids_append:
  "set_ts_ids (xs @ ys) requests = set_ts_ids ys (set_ts_ids xs requests)"
  by (induction xs arbitrary: requests) auto

lemma Schedule_ok:
  "schedule_raises s = None \<Longrightarrow>
   Schedule new_tasks sync s =
     (Return [next_task_id s ..< next_task_id s + length new_tasks],
      s\<lparr>tasks := tasks s @
            map (\<lambda>((q, v), i). \<lparr>t_queue = q, t_id = i, t_sync = sync, t_value = v\<rparr>)
              (zip new_tasks [next_task_id s ..< next_task_id s + length new_tasks]),
         next_task_id := next_task_id s + length new_tasks\<rparr>)"
  by (simp add: Schedule_def Let_def)

lemma zip_append_upt:
  "zip (xs @ ys) [n ..< n + length xs + length ys] =
     zip xs [n ..< n + length xs] @ zip ys [n + length xs ..< n + length xs + length ys]"
proof -
  have "[n ..< n + length xs + length ys] =
          [n ..< n + length xs] @ [n + length xs ..< n + length xs + length ys]"
    by (rule upt_add_eq_append) simp
  moreover have "length xs = length [n ..< n + length xs]" by simp
  ultimately show ?thesis by (simp only: zip_append)
qed

lemma group_tasks:
  "map (\<lambda>((q, v), i). \<lparr>t_queue = q, t_id = i, t_sync = True, t_value = v\<rparr>)
     (zip (map (\<lambda>(i, request). (destination, r_request request)) rs) ids) =
   map client_task
     (zip (map (\<lambda>(i, request). (i, destination, r_request request)) rs) ids)"
  by (induction rs arbitrary: ids) (auto simp: client_task_def zip_Cons1 split: list.splits)

lemma schedule_groups_closed:
  "schedule_raises s = None \<Longrightarrow>
   schedule_groups groups (to_flush, s) =
     (Return (),
      set_ts_ids (zip (map fst (to_schedule_of groups))
                    [next_task_id s ..< next_task_id s + length (to_schedule_of groups)]) to_flush,
      s\<lparr>tasks := tasks s @
            map client_task
              (zip (to_schedule_of groups)
                 [next_task_id s ..< next_task_id s + length (to_schedule_of groups)]),
         next_task_id := next_task_id s + length (to_schedule_of groups)\<rparr>)"
proof (induction groups arbitrary: to_flush s)
  case Nil
  then show ?case by (simp add: to_schedule_of_def)
next
  case (Cons g groups)
  obtain destination requests where g: "g = (destination, requests)" by (cases g)
  define ts where "ts = filter (\<lambda>(i, request :: request_state). named request) requests"
  define N0 where "N0 = map (\<lambda>(i, request). (i, destination, r_request request)) ts"
  define N1 where "N1 = to_schedule_of groups"
  define n where "n = next_task_id s"
  define s1 where "s1 = s\<lparr>tasks := tasks s @ map client_task (zip N0 [n ..< n + length N0]),
                           next_task_id := n + length N0\<rparr>"
  have N: "to_schedule_of (g # groups) = N0 @ N1"
    by (simp add: to_schedule_of_def g N0_def N1_def ts_def)
  have ts': "filter (\<lambda>(i, request). m_name (r_request request) \<noteq> []) requests = ts"
    by (simp add: ts_def named_def)
  have l0: "length N0 = length ts" by (simp add: N0_def)
  have f0: "map fst N0 = map fst ts" by (simp add: N0_def case_prod_unfold)
  have sch: "Schedule (map (\<lambda>(i, request). (destination, r_request request)) ts) True s =
               (Return [n ..< n + length N0], s1)"
    using Cons.prems by (simp add: Schedule_ok group_tasks s1_def n_def l0 N0_def)
  have r1: "schedule_raises s1 = None" using Cons.prems by (simp add: s1_def)
  have n1: "next_task_id s1 = n + length N0" by (simp add: s1_def)
  have step: "schedule_groups (g # groups) (to_flush, s) =
                schedule_groups groups
                  (set_ts_ids (zip (map fst N0) [n ..< n + length N0]) to_flush, s1)"
    by (simp add: g ts' sch f0 Let_def)
  have z: "zip (N0 @ N1) [n ..< n + length N0 + length N1] =
             zip N0 [n ..< n + length N0] @ zip N1 [n + length N0 ..< n + length N0 + length N1]"
    by (rule zip_append_upt)
  have zf: "zip (map fst N0 @ map fst N1) [n ..< n + length N0 + length N1] =
             zip (map fst N0) [n ..< n + length N0] @
             zip (map fst N1) [n + length N0 ..< n + length N0 + length N1]"
    using zip_append_upt[of "map fst N0" "map fst N1" n] by simp
  have a: "n + length (N0 @ N1) = n + length N0 + length N1" by simp
  show ?case
    unfolding step Cons.IH[OF r1] N n1 N1_def[symmetric] n_def[symmetric] a map_append z zf
      set_ts_ids_append
    by (simp add: s1_def del: upt_Suc)
qed


lemma first_keys_set: "set (first_keys ks) = set ks"
  by (simp add: first_keys_def)

lemma first_keys_distinct: "distinct (first_keys ks)"
  by (simp add: first_keys_def)

lemma mset_filter_key_insert:
  "k \<notin> K \<Longrightarrow>
   mset (filter (\<lambda>x. key x = k) xs) + mset (filter (\<lambda>x. key x \<in> K) xs) =
   mset (filter (\<lambda>x. key x \<in> insert k K) xs)"
  by (induction xs) auto

lemma mset_concat_groups:
  "distinct ks \<Longrightarrow>
   mset (concat (map (\<lambda>k. filter (\<lambda>x. key x = k) xs) ks)) =
   mset (filter (\<lambda>x. key x \<in> set ks) xs)"
proof (induction ks)
  case Nil
  then show ?case by simp
next
  case (Cons k ks)
  then have "k \<notin> set ks" "distinct ks" by simp_all
  with Cons.IH mset_filter_key_insert[of k "set ks" key xs]
  show ?case by simp
qed

lemma mset_GroupBy:
  "mset (concat (map snd (GroupBy xs key))) = mset xs"
proof -
  have "map snd (GroupBy xs key) =
          map (\<lambda>k. filter (\<lambda>x. key x = k) xs) (first_keys (map key xs))"
    by (simp add: GroupBy_def comp_def)
  moreover have "filter (\<lambda>x. key x \<in> set (first_keys (map key xs))) xs = xs"
    by (simp add: first_keys_set)
  ultimately show ?thesis
    using mset_concat_groups[OF first_keys_distinct, of key xs "map key xs"] by simp
qed

lemma GroupBy_key:
  "(k, g) \<in> set (GroupBy xs key) \<Longrightarrow> \<forall>x \<in> set g. key x = k"
  by (auto simp: GroupBy_def)

lemma zip_upt_nth: "zip [0..<length P] P = map (\<lambda>i. (i, P ! i)) [0..<length P]"
  by (rule nth_equalityI) simp_all

lemma to_schedule_of_GroupBy:
  "mset (to_schedule_of (GroupBy (zip [0..<length P] P) (\<lambda>(i, request). r_client_id request))) =
   mset (map (\<lambda>i. (i, r_client_id (P ! i), r_request (P ! i)))
           (filter (\<lambda>i. named (P ! i)) [0..<length P]))"
proof -
  let ?items = "zip [0..<length P] P"
  let ?key = "\<lambda>(i, request :: request_state). r_client_id request"
  let ?h = "\<lambda>(i, request :: request_state). (i, r_client_id request, r_request request)"
  let ?Q = "\<lambda>(i, request :: request_state). named request"
  let ?G = "GroupBy ?items ?key"
  have e: "(\<lambda>(destination, requests).
              map (\<lambda>(i, request). (i, destination, r_request request)) (filter ?Q requests)) g =
           map ?h (filter ?Q (snd g))" if "g \<in> set ?G" for g
  proof -
    obtain k rs where g: "g = (k, rs)" by (cases g)
    from GroupBy_key[of k rs ?items ?key] that g have "\<forall>x \<in> set rs. ?key x = k" by simp
    then have "map (\<lambda>(i, request). (i, k, r_request request)) (filter ?Q rs) =
               map ?h (filter ?Q rs)"
      by (intro map_cong) auto
    then show ?thesis by (simp add: g)
  qed
  have "to_schedule_of ?G = concat (map (\<lambda>g. map ?h (filter ?Q (snd g))) ?G)"
    unfolding to_schedule_of_def using e by (intro arg_cong[where f=concat] map_cong) auto
  also have "\<dots> = map ?h (filter ?Q (concat (map snd ?G)))"
    by (simp add: map_concat filter_concat comp_def)
  finally have "mset (to_schedule_of ?G) = image_mset ?h (filter_mset ?Q (mset (concat (map snd ?G))))"
    by simp
  also have "\<dots> = image_mset ?h (filter_mset ?Q (mset ?items))"
    by (simp only: mset_GroupBy)
  also have "\<dots> = mset (map ?h (filter ?Q ?items))" by simp
  finally have m: "mset (to_schedule_of ?G) = mset (map ?h (filter ?Q ?items))" .
  have "map ?h (filter ?Q ?items) =
          map ?h (filter ?Q (map (\<lambda>i. (i, P ! i)) [0..<length P]))"
    by (simp only: zip_upt_nth[symmetric])
  also have "\<dots> = map (\<lambda>i. (i, r_client_id (P ! i), r_request (P ! i)))
           (filter (\<lambda>i. named (P ! i)) [0..<length P])"
    by (simp add: filter_map comp_def del: upt_Suc)
  finally show ?thesis using m by simp
qed

lemma set_ts_ids_length: "length (set_ts_ids kv requests) = length requests"
  by (induction kv arbitrary: requests) auto

lemma set_ts_ids_nth:
  "distinct (map fst kv) \<Longrightarrow> i < length requests \<Longrightarrow>
   set_ts_ids kv requests ! i =
     (case map_of kv i of None \<Rightarrow> requests ! i
      | Some t \<Rightarrow> (requests ! i)\<lparr>r_ts_id := t\<rparr>)"
proof (induction kv arbitrary: requests)
  case Nil
  then show ?case by simp
next
  case (Cons a kv)
  obtain j t where a: "a = (j, t)" by (cases a)
  have d: "distinct (map fst kv)" "j \<notin> fst ` set kv" using Cons.prems(1) a by auto
  let ?r1 = "requests[j := (requests ! j)\<lparr>r_ts_id := t\<rparr>]"
  have l: "i < length ?r1" using Cons.prems(2) by simp
  have ih: "set_ts_ids kv ?r1 ! i =
     (case map_of kv i of None \<Rightarrow> ?r1 ! i | Some t' \<Rightarrow> (?r1 ! i)\<lparr>r_ts_id := t'\<rparr>)"
    by (rule Cons.IH[OF d(1) l])
  show ?case
  proof (cases "i = j")
    case True
    with d(2) have "map_of kv i = None" by (simp add: map_of_eq_None_iff)
    with ih True Cons.prems(2) show ?thesis by (simp add: a)
  next
    case False
    then have "j \<noteq> i" by simp
    then have "?r1 ! i = requests ! i" by simp
    with ih False show ?thesis by (simp add: a split: option.splits)
  qed
qed


lemma rows_of_setdefault_append:
  "mset (rows_of (setdefault_append k v d)) = mset (rows_of d) + {#(k, v)#}"
proof (induction d)
  case Nil
  then show ?case by (simp add: rows_of_def setdefault_append_def)
next
  case (Cons a d)
  obtain k' vs where a: "a = (k', vs)" by (cases a)
  show ?case
  proof (cases "k' = k")
    case True
    then show ?thesis by (simp add: a rows_of_def setdefault_append_def)
  next
    case False
    with Cons.IH show ?thesis by (simp add: a rows_of_def setdefault_append_def)
  qed
qed

lemma fold_QueueRequest:
  "fm_session_id (fold QueueRequest rs fm) = fm_session_id fm \<and>
   to_delete (fold QueueRequest rs fm) = to_delete fm \<and>
   client_messages (fold QueueRequest rs fm) = client_messages fm \<and>
   fm_client_id (fold QueueRequest rs fm) = fm_client_id fm \<and>
   mset (rows_of (to_write (fold QueueRequest rs fm))) =
     mset (rows_of (to_write fm)) + mset (map request_row rs)"
  by (induction rs arbitrary: fm)
     (simp_all add: QueueRequest_def rows_of_setdefault_append request_row_def)

lemma queue_block:
  "with_FlowManager sid
     (\<lambda>flow_manager s. (Return (), fold QueueRequest rs flow_manager, s)) s = (r, s1) \<Longrightarrow>
   tasks s1 = tasks s \<and> new_request_states s1 = new_request_states s \<and>
   multiset_raises s1 = multiset_raises s \<and>
   r = (case multiset_raises s of None \<Rightarrow> Return ()
        | Some e \<Rightarrow> if e = DataStoreError then Return () else Raise e) \<and>
   (multiset_raises s = None \<longrightarrow>
      (\<forall>subj. mset (store s1 subj) =
         mset (store s subj) + (if subj = subject sid then mset (map request_row rs) else {#})))"
proof -
  let ?fm = "fold QueueRequest rs (FlowManager sid)"
  have f: "fm_session_id ?fm = sid" "to_delete ?fm = []" "client_messages ?fm = []"
    "fm_client_id ?fm = None"
    "mset (rows_of (to_write ?fm)) = mset (map request_row rs)"
    using fold_QueueRequest[of rs "FlowManager sid"]
    by (simp_all add: FlowManager_def rows_of_def)
  assume "with_FlowManager sid
     (\<lambda>flow_manager s. (Return (), fold QueueRequest rs flow_manager, s)) s = (r, s1)"
  then show ?thesis
    using f(5)
    by (auto simp: with_FlowManager_def Flush_def MultiSet_def Delete_def f(1-4) rows_of_def
        split: option.splits if_splits)
qed

lemma subject_inj: "subject a = subject b \<longleftrightarrow> a = b"
  by (simp add: subject_def)

lemma store_groups_frame:
  "store_groups groups s = (r, s') \<Longrightarrow>
   tasks s' = tasks s \<and> new_request_states s' = new_request_states s \<and>
   (multiset_raises s = None \<or> multiset_raises s = Some DataStoreError \<or>
    multiset_raises s = Some MoreDataException \<longrightarrow> r = Return ())"
proof (induction groups arbitrary: s)
  case Nil
  then show ?case by simp
next
  case (Cons g groups)
  obtain sid rs where g: "g = (sid, rs)" by (cases g)
  obtain r1 s1 where w: "with_FlowManager sid
     (\<lambda>flow_manager s. (Return (), fold QueueRequest rs flow_manager, s)) s = (r1, s1)"
    by (metis surj_pair)
  note q = queue_block[OF w]
  show ?case
  proof (cases "r1 = Return () \<or> r1 = Raise MoreDataException")
    case True
    with Cons.prems g w have "store_groups groups s1 = (r, s')"
      by (auto split: res.splits)
    from Cons.IH[OF this] q show ?thesis by simp
  next
    case False
    then obtain e where e: "r1 = Raise e" "e \<noteq> MoreDataException" by (cases r1) auto
    with Cons.prems g w have "r = Raise e" "s' = s1" by auto
    with q e show ?thesis by (auto split: option.splits if_splits)
  qed
qed

lemma store_groups_stored:
  "multiset_raises s = None \<Longrightarrow>
   mset (store (snd (store_groups groups s)) (subject sid)) =
     mset (store s (subject sid)) +
     mset (map request_row (concat (map snd (filter (\<lambda>g. fst g = sid) groups))))"
proof (induction groups arbitrary: s)
  case Nil
  then show ?case by simp
next
  case (Cons g groups)
  obtain k rs where g: "g = (k, rs)" by (cases g)
  obtain r1 s1 where w: "with_FlowManager k
     (\<lambda>flow_manager s. (Return (), fold QueueRequest rs flow_manager, s)) s = (r1, s1)"
    by (metis surj_pair)
  from queue_block[OF w] Cons.prems
  have r1: "r1 = Return ()" and m1: "multiset_raises s1 = None"
    and st: "mset (store s1 (subject sid)) =
       mset (store s (subject sid)) + (if k = sid then mset (map request_row rs) else {#})"
    by (simp_all add: subject_inj eq_commute[of sid k])
  have "store_groups (g # groups) s = store_groups groups s1"
    by (simp add: g w r1)
  with Cons.IH[OF m1] st show ?case by (simp add: g)
qed

lemma filter_distinct_key:
  "distinct ks \<Longrightarrow>
   concat (map snd (filter (\<lambda>g. fst g = sid) (map (\<lambda>k. (k, F k)) ks))) =
     (if sid \<in> set ks then F sid else [])"
  by (induction ks) auto

lemma GroupBy_group:
  "concat (map snd (filter (\<lambda>g. fst g = k) (GroupBy xs key))) = filter (\<lambda>x. key x = k) xs"
proof -
  have "concat (map snd (filter (\<lambda>g. fst g = k) (GroupBy xs key))) =
          (if k \<in> set (first_keys (map key xs)) then filter (\<lambda>x. key x = k) xs else [])"
    unfolding GroupBy_def by (rule filter_distinct_key) (rule first_keys_distinct)
  also have "\<dots> = filter (\<lambda>x. key x = k) xs"
  proof (cases "k \<in> set (first_keys (map key xs))")
    case True
    then show ?thesis by simp
  next
    case False
    then have "filter (\<lambda>x. key x = k) xs = []"
      by (auto simp: first_keys_set filter_empty_conv)
    with False show ?thesis by simp
  qed
  finally show ?thesis .
qed


text \<open>
  Claim C5.  With the scheduler working, \<open>FlushMessages\<close> leaves the pending buffer
  empty, and returns normally also when the data store fails with its own error or
  with \<open>MoreDataException\<close> (both are suppressed).  The requests it flushed are those
  of the buffer, in place, the ones with a client message with their \<open>ts_id\<close> set;
  the tasks added to the scheduler are exactly the tasks of the flushed requests that
  have a client message: each on the queue of its request's \<open>client_id\<close>, scheduled
  with \<open>sync\<close>, carrying the request's message and having the id mirrored in the
  request's \<open>ts_id\<close>; and every flushed request, with or without a message, is
  written as a row of the state subject of its session.
\<close>

theorem FlushMessages_schedules_and_stores:
  assumes "schedule_raises s = None"
  shows "new_request_states (snd (FlushMessages s)) = [] \<and>
         (multiset_raises s = None \<or> multiset_raises s = Some DataStoreError \<or>
          multiset_raises s = Some MoreDataException \<longrightarrow> fst (FlushMessages s) = Return ()) \<and>
         (\<exists>flushed.
            length flushed = length (new_request_states s) \<and>
            (\<forall>i < length flushed.
               flushed ! i =
                 (if named (new_request_states s ! i)
                  then (new_request_states s ! i)\<lparr>r_ts_id := r_ts_id (flushed ! i)\<rparr>
                  else new_request_states s ! i)) \<and>
            take (length (tasks s)) (tasks (snd (FlushMessages s))) = tasks s \<and>
            mset (drop (length (tasks s)) (tasks (snd (FlushMessages s)))) =
              mset (map request_task (filter named flushed)) \<and>
            (multiset_raises s = None \<longrightarrow>
               (\<forall>sid. mset (store (snd (FlushMessages s)) (subject sid)) =
                  mset (store s (subject sid)) +
                  mset (map request_row (filter (\<lambda>request. r_session_id request = sid) flushed)))))"
proof -
  define P where "P = new_request_states s"
  define n where "n = length P"
  define s0 where "s0 = s\<lparr>new_request_states := []\<rparr>"
  define G where "G = GroupBy (zip [0..<length P] P) (\<lambda>(i, request). r_client_id request)"
  define N where "N = to_schedule_of G"
  define ids where "ids = [next_task_id s ..< next_task_id s + length N]"
  define kv where "kv = zip (map fst N) ids"
  define flushed where "flushed = set_ts_ids kv P"
  define s1 where "s1 = s0\<lparr>tasks := tasks s @ map client_task (zip N ids),
                             next_task_id := next_task_id s + length N\<rparr>"
  define idxs where "idxs = filter (\<lambda>i. named (P ! i)) [0..<n]"
  define h where "h = (\<lambda>i. (i, r_client_id (P ! i), r_request (P ! i)))"
  have sg: "schedule_groups G (P, s0) = (Return (), flushed, s1)"
    using schedule_groups_closed[of s0 G P] assms
    by (simp add: s0_def s1_def flushed_def kv_def ids_def N_def)
  obtain r s' where st: "store_groups (GroupBy flushed r_session_id) s1 = (r, s')"
    by (metis surj_pair)
  have fm: "FlushMessages s = (r, s')"
    by (simp add: FlushMessages_def Let_def P_def[symmetric] s0_def[symmetric] G_def[symmetric] sg st)
  have s1f: "tasks s1 = tasks s @ map client_task (zip N ids)" "new_request_states s1 = []"
    "multiset_raises s1 = multiset_raises s" "store s1 = store s"
    by (simp_all add: s1_def s0_def)
  note fr = store_groups_frame[OF st]
  have lf: "length flushed = n" by (simp add: flushed_def set_ts_ids_length n_def)
  have li: "length ids = length N" by (simp add: ids_def)
  have mN: "mset N = mset (map h idxs)"
    unfolding N_def G_def idxs_def h_def n_def by (rule to_schedule_of_GroupBy)
  have "mset (map fst N) = mset (map fst (map h idxs))"
    using mN by (metis mset_map)
  then have "mset (map fst N) = mset idxs" by (simp add: h_def comp_def)
  moreover have "distinct idxs" by (simp add: idxs_def)
  ultimately have dN: "distinct (map fst N)" by (metis mset_eq_imp_distinct_iff)
  have kf: "map fst kv = map fst N" by (simp add: kv_def li)
  have dkv: "distinct (map fst kv)" by (simp add: kf dN)
  have setN: "i < n \<and> named (P ! i) \<and> d = r_client_id (P ! i) \<and> m = r_request (P ! i)"
    if "(i, d, m) \<in> set N" for i d m
  proof -
    from that mN have "(i, d, m) \<in> set (map h idxs)" by (metis mset_eq_setD)
    then show ?thesis by (auto simp: h_def idxs_def)
  qed
  have keyN: "i < n \<and> named (P ! i)" if "i \<in> set (map fst N)" for i
    using that setN by fastforce
  have nth: "flushed ! i = (case map_of kv i of None \<Rightarrow> P ! i | Some t \<Rightarrow> (P ! i)\<lparr>r_ts_id := t\<rparr>)"
    if "i < n" for i
    unfolding flushed_def by (rule set_ts_ids_nth[OF dkv]) (use that in \<open>simp add: n_def\<close>)
  have tb: "flushed ! i = (if named (P ! i) then (P ! i)\<lparr>r_ts_id := r_ts_id (flushed ! i)\<rparr> else P ! i)"
    if "i < n" for i
  proof (cases "map_of kv i")
    case None
    with nth[OF that] show ?thesis by simp
  next
    case (Some t)
    then have "i \<in> set (map fst kv)" by (metis map_of_eq_None_iff option.distinct(1) set_map)
    with keyN kf have "named (P ! i)" by simp
    with nth[OF that] Some show ?thesis by simp
  qed
  have nm: "named (flushed ! i) = named (P ! i)" if "i < n" for i
  proof -
    have "r_request (flushed ! i) = r_request (P ! i)"
      using nth[OF that] by (simp split: option.splits)
    then show ?thesis by (simp add: named_def)
  qed
  have ct: "client_task x = request_task (flushed ! fst (fst x))" if "x \<in> set (zip N ids)" for x
  proof -
    obtain i d m t where x: "x = ((i, d, m), t)" by (cases x) auto
    from that x have inN: "(i, d, m) \<in> set N" by (meson set_zip_leftD)
    have "kv = map (\<lambda>(a, b). (fst a, b)) (zip N ids)" by (simp add: kv_def zip_map1)
    with that x have "(i, t) \<in> set kv" by force
    with dkv have "map_of kv i = Some t" by simp
    with nth setN[OF inN] have "flushed ! i = (P ! i)\<lparr>r_ts_id := t\<rparr>" by simp
    with setN[OF inN] show ?thesis by (simp add: x client_task_def request_task_def)
  qed
  have "map client_task (zip N ids) = map (\<lambda>x. request_task (flushed ! fst (fst x))) (zip N ids)"
    using ct by (intro map_cong) auto
  also have "\<dots> = map (\<lambda>y. request_task (flushed ! fst y)) (map fst (zip N ids))"
    by (simp add: comp_def)
  also have "\<dots> = map (\<lambda>y. request_task (flushed ! fst y)) N" by (simp add: li)
  finally have "mset (map client_task (zip N ids)) =
                  image_mset (\<lambda>y. request_task (flushed ! fst y)) (mset N)" by simp
  also have "\<dots> = image_mset (\<lambda>y. request_task (flushed ! fst y)) (mset (map h idxs))"
    by (simp only: mN)
  also have "\<dots> = mset (map (\<lambda>i. request_task (flushed ! i)) idxs)"
    by (simp add: h_def multiset.map_comp comp_def)
  finally have mt: "mset (map client_task (zip N ids)) =
                      mset (map (\<lambda>i. request_task (flushed ! i)) idxs)" .
  have "flushed = map (\<lambda>i. flushed ! i) [0..<n]" using lf by (metis map_nth)
  then have "filter named flushed = filter named (map (\<lambda>i. flushed ! i) [0..<n])" by simp
  also have "\<dots> = map (\<lambda>i. flushed ! i) (filter (\<lambda>i. named (flushed ! i)) [0..<n])"
    by (simp add: filter_map comp_def del: upt_Suc)
  also have "filter (\<lambda>i. named (flushed ! i)) [0..<n] = idxs"
    unfolding idxs_def using nm by (intro filter_cong) auto
  finally have fn: "filter named flushed = map (\<lambda>i. flushed ! i) idxs" .
  have tc: "mset (map client_task (zip N ids)) = mset (map request_task (filter named flushed))"
    unfolding fn using mt by (simp add: comp_def)
  have c1: "new_request_states (snd (FlushMessages s)) = []"
    using fr s1f by (simp add: fm)
  have c2: "multiset_raises s = None \<or> multiset_raises s = Some DataStoreError \<or>
          multiset_raises s = Some MoreDataException \<longrightarrow> fst (FlushMessages s) = Return ()"
    using fr s1f by (simp add: fm)
  have c3: "length flushed = length (new_request_states s)" using lf by (simp add: n_def P_def)
  have c4: "\<forall>i < length flushed.
               flushed ! i =
                 (if named (new_request_states s ! i)
                  then (new_request_states s ! i)\<lparr>r_ts_id := r_ts_id (flushed ! i)\<rparr>
                  else new_request_states s ! i)"
    unfolding lf P_def[symmetric] using tb by blast
  have ts': "tasks (snd (FlushMessages s)) = tasks s @ map client_task (zip N ids)"
    using fr s1f by (simp add: fm)
  have c5: "take (length (tasks s)) (tasks (snd (FlushMessages s))) = tasks s"
    by (simp add: ts')
  have c6: "mset (drop (length (tasks s)) (tasks (snd (FlushMessages s)))) =
              mset (map request_task (filter named flushed))"
    unfolding ts' using tc by simp
  have c7: "multiset_raises s = None \<longrightarrow>
               (\<forall>sid. mset (store (snd (FlushMessages s)) (subject sid)) =
                  mset (store s (subject sid)) +
                  mset (map request_row (filter (\<lambda>request. r_session_id request = sid) flushed)))"
  proof (intro impI allI)
    fix sid
    assume "multiset_raises s = None"
    then have "multiset_raises s1 = None" by (simp add: s1f)
    from store_groups_stored[OF this, of "GroupBy flushed r_session_id" sid]
    show "mset (store (snd (FlushMessages s)) (subject sid)) =
                  mset (store s (subject sid)) +
                  mset (map request_row (filter (\<lambda>request. r_session_id request = sid) flushed))"
      by (simp add: fm st s1f GroupBy_group)
  qed
  show ?thesis by (intro conjI exI[of _ flushed] c1 c2 c3 c4 c5 c6 c7)
qed


theorem FlushMessages_schedules_and_stores_witness:
  "schedule_raises pending_sys = None \<and> multiset_raises pending_sys = None \<and>
   new_request_states (snd (FlushMessages pending_sys)) = [] \<and>
   fst (FlushMessages pending_sys) = Return ()"
proof -
  have h: "schedule_raises pending_sys = None" and m: "multiset_raises pending_sys = None"
    by (simp_all add: pending_sys_def sys0_def)
  have a: "new_request_states (snd (FlushMessages pending_sys)) = []"
    by (rule FlushMessages_schedules_and_stores [OF h, THEN conjunct1])
  have b: "fst (FlushMessages pending_sys) = Return ()"
    using FlushMessages_schedules_and_stores [OF h, THEN conjunct2, THEN conjunct1] m by simp
  show ?thesis by (intro conjI h m a b)
qed


end
